theory Spec2Isabelle
  imports Main "HOL-Library.Char_ord" "HOL-Library.List_Lexorder" "HOL-Library.Product_Lexorder"
begin

section \<open>The crafting planner of \<^verbatim>\<open>src/craft_planner.py\<close>\<close>

text \<open>
  Python exceptions are values: a call returns \<open>Inl e\<close> when the source raises \<open>e\<close>
  and \<open>Inr v\<close> when it returns \<open>v\<close>.
\<close>

datatype py_error = KeyError | TypeError | NameError

subsection \<open>State: an ordered dictionary from item names to quantities\<close>

text \<open>
  \<^verbatim>\<open>class State(OrderedDict)\<close>. An ordered dictionary is the list of its entries in
  insertion order; its keys are pairwise different (\<open>State_inv\<close>). Quantities are Python
  integers, hence \<open>int\<close>.
\<close>

type_synonym state = "(string \<times> int) list"

definition State_inv :: "state \<Rightarrow> bool" where
  "State_inv s = distinct (map fst s)"

text \<open>\<^verbatim>\<open>state[name]\<close> raises \<^verbatim>\<open>KeyError\<close> on a missing key.\<close>

definition getitem :: "state \<Rightarrow> string \<Rightarrow> py_error + int" where
  "getitem s k = (case map_of s k of None \<Rightarrow> Inl KeyError | Some v \<Rightarrow> Inr v)"

text \<open>
  \<^verbatim>\<open>state[name] = v\<close>: an existing key keeps its position and takes the new value, a
  new key is appended.
\<close>

fun setitem :: "state \<Rightarrow> string \<Rightarrow> int \<Rightarrow> state" where
  "setitem [] k v = [(k, v)]"
| "setitem ((k', v') # s) k v =
     (if k' = k then (k, v) # s else (k', v') # setitem s k v)"

text \<open>\<^verbatim>\<open>dict.update(other)\<close> stores every entry of \<open>other\<close>, in its order.\<close>

definition State_update :: "state \<Rightarrow> (string \<times> int) list \<Rightarrow> state" where
  "State_update s other = fold (\<lambda>(k, v) acc. setitem acc k v) other s"

text \<open>
  \<^verbatim>\<open>State(entries)\<close>: the constructor stores the entries one after the other into an
  empty dictionary.
\<close>

definition State_init :: "(string \<times> int) list \<Rightarrow> state" where
  "State_init entries = State_update [] entries"

text \<open>\<^verbatim>\<open>__key\<close>: the tuple of the items, in the dictionary's order.\<close>

definition State_key :: "state \<Rightarrow> (string \<times> int) list" where
  "State_key s = s"

text \<open>
  \<^verbatim>\<open>__hash__\<close> is Python's \<^verbatim>\<open>hash\<close> of the key tuple. The built-in is not part of the
  repository: it is the parameter \<open>hash\<close>.
\<close>

definition State_hash :: "((string \<times> int) list \<Rightarrow> int) \<Rightarrow> state \<Rightarrow> int" where
  "State_hash hash s = hash (State_key s)"

text \<open>
  \<^verbatim>\<open>__lt__\<close> compares the key tuples. Python orders tuples lexicographically, strings
  by code point and integers by value, which is the order of
  \<^typ>\<open>(string \<times> int) list\<close>.
\<close>

definition State_lt :: "state \<Rightarrow> state \<Rightarrow> bool" where
  "State_lt s other = (State_key s < State_key other)"

text \<open>
  \<^verbatim>\<open>__eq__\<close> is inherited from \<^verbatim>\<open>OrderedDict\<close>, whose comparison with another ordered
  dictionary is \<^verbatim>\<open>dict.__eq__(self, other) and all(map(_eq, self, other))\<close>: the two
  hold the same entries (\<open>dict_eq\<close>), and their keys come in the same order.
\<close>

definition dict_eq :: "state \<Rightarrow> state \<Rightarrow> bool" where
  "dict_eq s other =
     (length s = length other \<and> list_all (\<lambda>(k, v). map_of other k = Some v) s)"

definition State_eq :: "state \<Rightarrow> state \<Rightarrow> bool" where
  "State_eq s other = (dict_eq s other \<and> list_all2 (=) (map fst s) (map fst other))"

subsection \<open>The store of State objects\<close>

text \<open>
  States are objects, and \<^verbatim>\<open>effect\<close> writes into one. The store lists the objects
  by address; \<^verbatim>\<open>State()\<close> allocates at the end.
\<close>

type_synonym store = "state list"

text \<open>
  \<^verbatim>\<open>State.copy\<close>: \<^verbatim>\<open>new_state = State(); new_state.update(self); return new_state\<close>.
  It returns the store with the new object and the address of that object.
\<close>

definition State_copy :: "store \<Rightarrow> nat \<Rightarrow> store \<times> nat" where
  "State_copy h a = (h @ [State_update [] (h ! a)], length h)"

subsection \<open>Rules\<close>

text \<open>
  A rule description is the dictionary read from the domain file. A clause that may be
  absent is an \<open>option\<close>; \<^verbatim>\<open>Requires\<close> is iterated by its keys only.
\<close>

record rule =
  Consumes :: "(string \<times> int) list option"
  Requires :: "string list option"
  Produces :: "(string \<times> int) list option"
  Time :: "int option"

text \<open>
  The loops of \<^verbatim>\<open>check\<close>. A loop ends in \<open>Inr False\<close> at its \<^verbatim>\<open>return False\<close>, in
  \<open>Inl e\<close> where indexing raises, and in \<open>Inr True\<close> when it runs through.
\<close>

fun check_consumes :: "state \<Rightarrow> (string \<times> int) list \<Rightarrow> py_error + bool" where
  "check_consumes state [] = Inr True"
| "check_consumes state ((name, amount) # rest) =
     (case getitem state name of
        Inl e \<Rightarrow> Inl e
      | Inr q \<Rightarrow> if q < amount then Inr False else check_consumes state rest)"

fun check_requires :: "state \<Rightarrow> string list \<Rightarrow> py_error + bool" where
  "check_requires state [] = Inr True"
| "check_requires state (name # rest) =
     (case getitem state name of
        Inl e \<Rightarrow> Inl e
      | Inr q \<Rightarrow> if q < 1 then Inr False else check_requires state rest)"

definition make_checker :: "rule \<Rightarrow> state \<Rightarrow> py_error + bool" where
  "make_checker rule state =
     (case (case Consumes rule of None \<Rightarrow> Inr True | Some cs \<Rightarrow> check_consumes state cs) of
        Inl e \<Rightarrow> Inl e
      | Inr False \<Rightarrow> Inr False
      | Inr True \<Rightarrow>
          (case Requires rule of None \<Rightarrow> Inr True | Some rs \<Rightarrow> check_requires state rs))"

text \<open>
  The loops of \<^verbatim>\<open>effect\<close> write into the object at address \<open>n\<close>:
  \<^verbatim>\<open>next_state[name] -= amount\<close> reads the entry (and raises when it is missing),
  then stores the difference.
\<close>

fun consume :: "store \<Rightarrow> nat \<Rightarrow> (string \<times> int) list \<Rightarrow> py_error + store" where
  "consume h n [] = Inr h"
| "consume h n ((name, amount) # rest) =
     (case getitem (h ! n) name of
        Inl e \<Rightarrow> Inl e
      | Inr q \<Rightarrow> consume (h[n := setitem (h ! n) name (q - amount)]) n rest)"

fun produce :: "store \<Rightarrow> nat \<Rightarrow> (string \<times> int) list \<Rightarrow> py_error + store" where
  "produce h n [] = Inr h"
| "produce h n ((name, amount) # rest) =
     (case getitem (h ! n) name of
        Inl e \<Rightarrow> Inl e
      | Inr q \<Rightarrow> produce (h[n := setitem (h ! n) name (q + amount)]) n rest)"

text \<open>
  \<^verbatim>\<open>effect(state)\<close>, on the store \<open>h\<close> with \<open>state\<close> at address \<open>a\<close>. It returns the
  store it leaves and the address of \<^verbatim>\<open>next_state\<close>. \<^verbatim>\<open>rule['Produces']\<close> raises
  when the clause is absent.
\<close>

definition make_effector :: "rule \<Rightarrow> store \<Rightarrow> nat \<Rightarrow> py_error + (store \<times> nat)" where
  "make_effector rule h a =
     (case State_copy h a of (h0, next_state) \<Rightarrow>
        (case (case Consumes rule of None \<Rightarrow> Inr h0 | Some cs \<Rightarrow> consume h0 next_state cs) of
           Inl e \<Rightarrow> Inl e
         | Inr h1 \<Rightarrow>
             (case Produces rule of
                None \<Rightarrow> Inl KeyError
              | Some ps \<Rightarrow>
                  (case produce h1 next_state ps of
                     Inl e \<Rightarrow> Inl e
                   | Inr h2 \<Rightarrow> Inr (h2, next_state)))))"

subsection \<open>The goal predicate\<close>

fun make_goal_checker :: "(string \<times> int) list \<Rightarrow> state \<Rightarrow> py_error + bool" where
  "make_goal_checker [] state = Inr True"
| "make_goal_checker ((name, amount) # goal) state =
     (case getitem state name of
        Inl e \<Rightarrow> Inl e
      | Inr q \<Rightarrow> if q < amount then Inr False else make_goal_checker goal state)"


subsection \<open>Compiled recipes and the rule-building loop\<close>

text \<open>
  \<^verbatim>\<open>Recipe = namedtuple('Recipe', ['name', 'check', 'effect', 'cost'])\<close>; the two
  closures are functions.
\<close>

record Recipe =
  name :: string
  check :: "state \<Rightarrow> py_error + bool"
  effect :: "store \<Rightarrow> nat \<Rightarrow> py_error + (store \<times> nat)"
  cost :: int

text \<open>
  The loop over \<^verbatim>\<open>Crafting['Recipes'].items()\<close> that fills \<^verbatim>\<open>all_recipes\<close>.
  \<^verbatim>\<open>rule['Time']\<close> raises when the entry is absent; nothing else in the loop can.
\<close>

fun build_rules :: "Recipe list \<Rightarrow> (string \<times> rule) list \<Rightarrow> py_error + Recipe list" where
  "build_rules all_recipes [] = Inr all_recipes"
| "build_rules all_recipes ((nm, rule) # rest) =
     (case Time rule of
        None \<Rightarrow> Inl KeyError
      | Some t \<Rightarrow>
          build_rules
            (all_recipes @
               [\<lparr>name = nm, check = make_checker rule, effect = make_effector rule, cost = t\<rparr>])
            rest)"

text \<open>
  The initial state of the main program: every declared item at quantity 0, then
  \<^verbatim>\<open>state.update(Crafting['Initial'])\<close>.
\<close>

definition initial_state :: "string list \<Rightarrow> (string \<times> int) list \<Rightarrow> state" where
  "initial_state items initial = State_update (State_init (map (\<lambda>key. (key, 0)) items)) initial"

subsection \<open>The heuristic\<close>

text \<open>
  A heuristic returns a number or \<^verbatim>\<open>inf\<close>; costs are integers. \<^verbatim>\<open>new_cost + inf\<close> is
  \<^verbatim>\<open>inf\<close>.
\<close>

datatype pynum = Num int | Infinity

fun pynum_add :: "int \<Rightarrow> pynum \<Rightarrow> pynum" where
  "pynum_add c (Num x) = Num (c + x)"
| "pynum_add c Infinity = Infinity"

fun pynum_lt :: "pynum \<Rightarrow> pynum \<Rightarrow> bool" where
  "pynum_lt (Num x) (Num y) = (x < y)"
| "pynum_lt (Num x) Infinity = True"
| "pynum_lt Infinity y = False"

text \<open>
  \<^verbatim>\<open>heuristic(state)\<close> reads the global \<^verbatim>\<open>recipe\<close>, which the rule-building loop leaves
  bound to the last \<^verbatim>\<open>Recipe\<close> tuple it built (\<open>None\<close>: the loop never ran, the name is
  unbound). \<^verbatim>\<open>item in recipe\<close> compares the item with the components of that tuple,
  and only its name can be equal to a string; \<^verbatim>\<open>recipe[item]\<close> then indexes a tuple by
  a string, which raises \<^verbatim>\<open>TypeError\<close>.
\<close>

fun heuristic_items :: "Recipe option \<Rightarrow> state \<Rightarrow> py_error + pynum" where
  "heuristic_items recipe [] = Inr (Num 15)"
| "heuristic_items recipe ((item, q) # rest) =
     (if q = 0 then heuristic_items recipe rest
      else
        (case recipe of
           None \<Rightarrow> Inl NameError
         | Some r \<Rightarrow> if item = name r then Inl TypeError else heuristic_items recipe rest))"

definition heuristic :: "Recipe list \<Rightarrow> state \<Rightarrow> py_error + pynum" where
  "heuristic all_recipes state =
     heuristic_items (if all_recipes = [] then None else Some (last all_recipes)) state"

subsection \<open>Successor generation\<close>

text \<open>
  A generator is the sequence of what it yields, ended by its return or by the
  exception it raises. \<^verbatim>\<open>graph\<close> reads no variable of the search, so the sequence is
  fixed by the state it is called on.
\<close>

datatype 'a gen = Stop | Raise py_error | Yield 'a "'a gen"

type_synonym successor = "string \<times> state \<times> int"

text \<open>
  \<^verbatim>\<open>graph(state)\<close>, with the global \<^verbatim>\<open>all_recipes\<close> as first argument. The state is
  handed to \<^verbatim>\<open>r.effect\<close> as an object; the successor is the content of the object that
  comes back.
\<close>

fun graph :: "Recipe list \<Rightarrow> state \<Rightarrow> successor gen" where
  "graph [] state = Stop"
| "graph (r # rest) state =
     (case check r state of
        Inl e \<Rightarrow> Raise e
      | Inr False \<Rightarrow> graph rest state
      | Inr True \<Rightarrow>
          (case effect r [state] 0 of
             Inl e \<Rightarrow> Raise e
           | Inr (h, next_state) \<Rightarrow>
               Yield (name r, h ! next_state, cost r) (graph rest state)))"

subsection \<open>Priorities and the frontier\<close>

type_synonym entry = "pynum \<times> state"

text \<open>
  Python compares the tuples \<^verbatim>\<open>(priority, state)\<close> at the first component in which
  they differ (by \<^verbatim>\<open>==\<close>), with \<^verbatim>\<open><\<close> of that component.
\<close>

definition entry_lt :: "entry \<Rightarrow> entry \<Rightarrow> bool" where
  "entry_lt x y =
     (if fst x = fst y then \<not> State_eq (snd x) (snd y) \<and> State_lt (snd x) (snd y)
      else pynum_lt (fst x) (fst y))"

text \<open>
  \<^verbatim>\<open>heapq\<close> is the standard library's. The frontier is the list of the entries the
  heap holds: \<^verbatim>\<open>heappush\<close> adds one, \<^verbatim>\<open>heappop\<close> takes a least one out. \<open>heappop\<close> is
  \<open>None\<close> on the empty heap, which the loop condition \<^verbatim>\<open>while frontier\<close> tests.
\<close>

definition heappush :: "entry list \<Rightarrow> entry \<Rightarrow> entry list" where
  "heappush heap item = item # heap"

fun least_entry :: "entry \<Rightarrow> entry list \<Rightarrow> entry" where
  "least_entry m [] = m"
| "least_entry m (x # xs) = least_entry (if entry_lt x m then x else m) xs"

definition heappop :: "entry list \<Rightarrow> (entry \<times> entry list) option" where
  "heappop heap =
     (case heap of
        [] \<Rightarrow> None
      | x # xs \<Rightarrow> (let m = least_entry x xs in Some (m, remove1 m heap)))"

subsection \<open>The search\<close>

text \<open>
  The three structures of one exploration. The dictionaries are keyed by states;
  \<^verbatim>\<open>came_from_dict\<close> holds \<^verbatim>\<open>None\<close> for the initial state and a pair for the others.
\<close>

record search_state =
  frontier :: "entry list"
  came_from_dict :: "state \<rightharpoonup> (state \<times> string) option"
  cost_so_far :: "state \<rightharpoonup> int"

text \<open>
  The body of \<^verbatim>\<open>for name, next, action_cost in graph(current)\<close>. The test is
  \<^verbatim>\<open>next not in cost_so_far or new_cost < cost_so_far[next]\<close>;
  \<^verbatim>\<open>make_effector(name)\<close> only builds a closure that is dropped. An exception of
  the heuristic leaves \<^verbatim>\<open>search\<close>, so the write to \<^verbatim>\<open>cost_so_far\<close> before it is
  not seen.
\<close>

definition relax ::
  "(state \<Rightarrow> py_error + pynum) \<Rightarrow> state \<Rightarrow> successor \<Rightarrow> search_state \<Rightarrow> py_error + search_state"
where
  "relax estimate current succ st =
     (case succ of (nm, next_state, action_cost) \<Rightarrow>
        (case cost_so_far st current of
           None \<Rightarrow> Inl KeyError
         | Some c \<Rightarrow>
             (let new_cost = action_cost + c in
              if (case cost_so_far st next_state of
                    None \<Rightarrow> True
                  | Some recorded \<Rightarrow> new_cost < recorded)
              then
                (case estimate current of
                   Inl e \<Rightarrow> Inl e
                 | Inr hv \<Rightarrow>
                     Inr (st\<lparr>cost_so_far := (cost_so_far st)(next_state \<mapsto> new_cost),
                             frontier := heappush (frontier st) (pynum_add new_cost hv, next_state),
                             came_from_dict :=
                               (came_from_dict st)(next_state \<mapsto> Some (current, nm))\<rparr>))
              else Inr st)))"

fun expand ::
  "(state \<Rightarrow> py_error + pynum) \<Rightarrow> state \<Rightarrow> successor gen \<Rightarrow> search_state \<Rightarrow>
   py_error + search_state"
where
  "expand estimate current Stop st = Inr st"
| "expand estimate current (Raise e) st = Inl e"
| "expand estimate current (Yield succ g) st =
     (case relax estimate current succ st of
        Inl e \<Rightarrow> Inl e
      | Inr st' \<Rightarrow> expand estimate current g st')"

text \<open>
  A loop that may run forever takes fuel: \<open>OutOfFuel\<close> says that it has not ended within
  the given number of iterations.
\<close>

datatype 'a outcome = Returns 'a | Raises py_error | OutOfFuel

text \<open>
  \<^verbatim>\<open>while came_from != state\<close>: the walk back along \<^verbatim>\<open>came_from_dict\<close>. Unpacking
  \<^verbatim>\<open>None\<close> raises \<^verbatim>\<open>TypeError\<close>, a missing key \<^verbatim>\<open>KeyError\<close>.
\<close>

fun walk_back ::
  "nat \<Rightarrow> (state \<rightharpoonup> (state \<times> string) option) \<Rightarrow> state \<Rightarrow> state \<Rightarrow>
   (state \<times> string) list \<Rightarrow> (state \<times> string) list outcome"
where
  "walk_back 0 cfd state came_from ret_list = OutOfFuel"
| "walk_back (Suc fuel) cfd state came_from ret_list =
     (if \<not> State_eq came_from state then
        (case cfd came_from of
           None \<Rightarrow> Raises KeyError
         | Some None \<Rightarrow> Raises TypeError
         | Some (Some (prev, nm)) \<Rightarrow> walk_back fuel cfd state prev (ret_list @ [(prev, nm)]))
      else Returns ret_list)"

text \<open>
  \<^verbatim>\<open>while frontier\<close>: one exploration. It returns \<open>Some plan\<close> at the source's
  \<^verbatim>\<open>return reversed(ret_list)\<close> and \<open>None\<close> when the frontier runs empty. The prints
  and the counter \<^verbatim>\<open>length\<close>, which only feeds one, are left out;
  \<^verbatim>\<open>times = cost_so_far[current]\<close> stays, since it can raise.

  Wall-clock time is the function \<open>clock\<close> of an instant counter. The program reads it
  by \<^verbatim>\<open>time()\<close> only; the counter \<open>t\<close> also advances at every \<^verbatim>\<open>heappop\<close>, so that
  the time at which a state is popped has a name. The exploration reads no clock, and
  hands back the instant at which it ends. The parameters \<^verbatim>\<open>graph\<close> and \<^verbatim>\<open>heuristic\<close> of the
  source are \<open>succs\<close> and \<open>estimate\<close> here.
\<close>

fun explore ::
  "nat \<Rightarrow> (state \<Rightarrow> successor gen) \<Rightarrow> state \<Rightarrow> (state \<Rightarrow> py_error + bool) \<Rightarrow>
   (state \<Rightarrow> py_error + pynum) \<Rightarrow> nat \<Rightarrow> search_state \<Rightarrow>
   ((state \<times> string) list option \<times> nat) outcome"
where
  "explore 0 succs state is_goal estimate t st = OutOfFuel"
| "explore (Suc fuel) succs state is_goal estimate t st =
     (case heappop (frontier st) of
        None \<Rightarrow> Returns (None, t)
      | Some ((priority, current), rest) \<Rightarrow>
          (case is_goal current of
             Inl e \<Rightarrow> Raises e
           | Inr True \<Rightarrow>
               (case cost_so_far st current of
                  None \<Rightarrow> Raises KeyError
                | Some times_found \<Rightarrow>
                    (case walk_back fuel (came_from_dict st) state current
                            [(current, ''complete'')] of
                       Returns ret_list \<Rightarrow> Returns (Some (rev ret_list), Suc t)
                     | Raises e \<Rightarrow> Raises e
                     | OutOfFuel \<Rightarrow> OutOfFuel))
           | Inr False \<Rightarrow>
               (case expand estimate current (succs current) (st\<lparr>frontier := rest\<rparr>) of
                  Inl e \<Rightarrow> Raises e
                | Inr st' \<Rightarrow> explore fuel succs state is_goal estimate (Suc t) st')))"

text \<open>
  \<^verbatim>\<open>while time() - start_time < limit\<close>: the restart loop. Each test reads the clock
  at the current instant.
\<close>

fun restart_loop ::
  "nat \<Rightarrow> (nat \<Rightarrow> int) \<Rightarrow> (state \<Rightarrow> successor gen) \<Rightarrow> state \<Rightarrow>
   (state \<Rightarrow> py_error + bool) \<Rightarrow> int \<Rightarrow> (state \<Rightarrow> py_error + pynum) \<Rightarrow> int \<Rightarrow> nat \<Rightarrow>
   (state \<times> string) list option outcome"
where
  "restart_loop 0 clock succs state is_goal limit estimate start_time t = OutOfFuel"
| "restart_loop (Suc fuel) clock succs state is_goal limit estimate start_time t =
     (if clock t - start_time < limit then
        (case explore fuel succs state is_goal estimate (Suc t)
                \<lparr>frontier = heappush [] (Num 0, state),
                 came_from_dict = [state \<mapsto> None],
                 cost_so_far = [state \<mapsto> 0]\<rparr> of
           Returns (Some plan, t') \<Rightarrow> Returns (Some plan)
         | Returns (None, t') \<Rightarrow>
             restart_loop fuel clock succs state is_goal limit estimate start_time t'
         | Raises e \<Rightarrow> Raises e
         | OutOfFuel \<Rightarrow> OutOfFuel)
      else Returns None)"

text \<open>
  \<^verbatim>\<open>search(graph, state, is_goal, limit, heuristic)\<close>: \<^verbatim>\<open>start_time = time()\<close> reads
  instant 0, the first test of the loop instant 1. \<open>Returns None\<close> is the source's
  \<^verbatim>\<open>return None\<close>.
\<close>

definition search ::
  "nat \<Rightarrow> (nat \<Rightarrow> int) \<Rightarrow> (state \<Rightarrow> successor gen) \<Rightarrow> state \<Rightarrow>
   (state \<Rightarrow> py_error + bool) \<Rightarrow> int \<Rightarrow> (state \<Rightarrow> py_error + pynum) \<Rightarrow>
   (state \<times> string) list option outcome"
where
  "search fuel clock succs state is_goal limit estimate =
     restart_loop fuel clock succs state is_goal limit estimate (clock 0) 1"

subsection \<open>Notions used in the statements and proofs\<close>

text \<open>The entries of a clause that may be absent.\<close>

definition clause :: "'a list option \<Rightarrow> 'a list" where
  "clause c = (case c of None \<Rightarrow> [] | Some xs \<Rightarrow> xs)"

text \<open>The state holds item \<open>k\<close> in quantity \<open>n\<close> or more.\<close>

definition has_at_least :: "state \<Rightarrow> string \<Rightarrow> int \<Rightarrow> bool" where
  "has_at_least s k n = (case map_of s k of None \<Rightarrow> False | Some q \<Rightarrow> n \<le> q)"

text \<open>
  The amount a clause gives for item \<open>k\<close>: the sum over its entries for \<open>k\<close>. A clause
  is a dictionary, so there is at most one such entry.
\<close>

fun amount_for :: "(string \<times> int) list \<Rightarrow> string \<Rightarrow> int" where
  "amount_for [] k = 0"
| "amount_for ((n, a) # xs) k = (if n = k then a else 0) + amount_for xs k"

text \<open>Every quantity of a state moved by what \<open>d\<close> gives for its item.\<close>

definition shift :: "(string \<Rightarrow> int) \<Rightarrow> state \<Rightarrow> state" where
  "shift d s = map (\<lambda>(k, q). (k, q + d k)) s"

subsection \<open>A small crafting domain\<close>

text \<open>
  The domain of the concrete runs below: items \<^verbatim>\<open>wood\<close>, \<^verbatim>\<open>plank\<close> and \<^verbatim>\<open>bench\<close>; the
  rule \<^verbatim>\<open>chop\<close> turns one \<^verbatim>\<open>wood\<close> into four \<^verbatim>\<open>plank\<close>, the rule \<^verbatim>\<open>craft bench\<close>
  turns four \<^verbatim>\<open>plank\<close> into one \<^verbatim>\<open>bench\<close>; each costs 1.
\<close>

definition crafting_items :: "string list" where
  "crafting_items = [''wood'', ''plank'', ''bench'']"

definition chop :: rule where
  "chop = \<lparr>Consumes = Some [(''wood'', 1)], Requires = None,
            Produces = Some [(''plank'', 4)], Time = Some 1\<rparr>"

definition craft_bench :: rule where
  "craft_bench = \<lparr>Consumes = Some [(''plank'', 4)], Requires = None,
                   Produces = Some [(''bench'', 1)], Time = Some 1\<rparr>"

definition crafting_recipes :: "Recipe list" where
  "crafting_recipes =
     [\<lparr>name = ''chop'', check = make_checker chop, effect = make_effector chop, cost = 1\<rparr>,
      \<lparr>name = ''craft bench'', check = make_checker craft_bench,
        effect = make_effector craft_bench, cost = 1\<rparr>]"

text \<open>
  A clock that stands at 0 when the search starts and at its first deadline test
  (instants 0 and 1), and at 100 from then on.
\<close>

definition late_clock :: "nat \<Rightarrow> int" where
  "late_clock t = (if t \<le> 1 then 0 else 100)"

section \<open>Reading and writing a state\<close>

lemma getitem_present:
  "k \<in> fst ` set s \<Longrightarrow> \<exists>q. map_of s k = Some q \<and> getitem s k = Inr q"
  by (cases "map_of s k") (auto simp: getitem_def map_of_eq_None_iff)

lemma getitem_absent: "k \<notin> fst ` set s \<Longrightarrow> getitem s k = Inl KeyError"
  by (simp add: getitem_def map_of_eq_None_iff[THEN iffD2])

lemma has_at_least_key: "has_at_least s k n \<Longrightarrow> k \<in> fst ` set s"
  by (cases "map_of s k") (auto simp: has_at_least_def dest: map_of_SomeD intro: rev_image_eqI)

section \<open>Preconditions and the goal predicate\<close>

lemma check_consumes_iff:
  "fst ` set cs \<subseteq> fst ` set s \<Longrightarrow>
   check_consumes s cs = Inr (\<forall>(k, a) \<in> set cs. has_at_least s k a)"
proof (induction cs)
  case Nil
  then show ?case by simp
next
  case (Cons c cs)
  obtain k a where c: "c = (k, a)" by (cases c)
  from Cons.prems c have "k \<in> fst ` set s" by auto
  then obtain q where q: "map_of s k = Some q" "getitem s k = Inr q"
    using getitem_present by blast
  from Cons have IH: "check_consumes s cs = Inr (\<forall>(k, a) \<in> set cs. has_at_least s k a)"
    by simp
  show ?case using q IH by (auto simp: c has_at_least_def)
qed

lemma check_requires_iff:
  "set rs \<subseteq> fst ` set s \<Longrightarrow>
   check_requires s rs = Inr (\<forall>k \<in> set rs. has_at_least s k 1)"
proof (induction rs)
  case Nil
  then show ?case by simp
next
  case (Cons k rs)
  then have "k \<in> fst ` set s" by auto
  then obtain q where q: "map_of s k = Some q" "getitem s k = Inr q"
    using getitem_present by blast
  from Cons have IH: "check_requires s rs = Inr (\<forall>k \<in> set rs. has_at_least s k 1)"
    by simp
  show ?case using q IH by (auto simp: has_at_least_def)
qed

lemma make_goal_checker_iff:
  "fst ` set goal \<subseteq> fst ` set s \<Longrightarrow>
   make_goal_checker goal s = Inr (\<forall>(k, a) \<in> set goal. has_at_least s k a)"
proof (induction goal)
  case Nil
  then show ?case by simp
next
  case (Cons c cs)
  obtain k a where c: "c = (k, a)" by (cases c)
  from Cons.prems c have "k \<in> fst ` set s" by auto
  then obtain q where q: "map_of s k = Some q" "getitem s k = Inr q"
    using getitem_present by blast
  from Cons have IH: "make_goal_checker cs s = Inr (\<forall>(k, a) \<in> set cs. has_at_least s k a)"
    by simp
  show ?case using q IH by (auto simp: c has_at_least_def)
qed

lemma consumes_part_iff:
  "fst ` set (clause (Consumes rule)) \<subseteq> fst ` set state \<Longrightarrow>
   (case Consumes rule of None \<Rightarrow> Inr True | Some cs \<Rightarrow> check_consumes state cs) =
     Inr (\<forall>(k, a) \<in> set (clause (Consumes rule)). has_at_least state k a)"
  by (cases "Consumes rule") (simp_all add: clause_def check_consumes_iff)

text \<open>
  Claim C3. On a state that holds every item the rule's \<^verbatim>\<open>Consumes\<close> and \<^verbatim>\<open>Requires\<close>
  clauses name, \<^verbatim>\<open>check(state)\<close> returns, and its value is true exactly when every
  consumed item is held in its amount or more and every required item in quantity 1 or
  more.
\<close>

theorem make_checker_iff:
  assumes "fst ` set (clause (Consumes rule)) \<union> set (clause (Requires rule)) \<subseteq> fst ` set state"
  shows "make_checker rule state =
           Inr ((\<forall>(k, a) \<in> set (clause (Consumes rule)). has_at_least state k a) \<and>
                (\<forall>k \<in> set (clause (Requires rule)). has_at_least state k 1))"
proof -
  have c: "(case Consumes rule of None \<Rightarrow> Inr True | Some cs \<Rightarrow> check_consumes state cs) =
             Inr (\<forall>(k, a) \<in> set (clause (Consumes rule)). has_at_least state k a)"
    using assms by (simp add: consumes_part_iff)
  have r: "(case Requires rule of None \<Rightarrow> Inr True | Some rs \<Rightarrow> check_requires state rs) =
             Inr (\<forall>k \<in> set (clause (Requires rule)). has_at_least state k 1)"
    using assms by (cases "Requires rule") (simp_all add: clause_def check_requires_iff)
  show ?thesis
    unfolding make_checker_def c r by (simp split: bool.split)
qed

theorem make_checker_iff_witness:
  "make_checker \<lparr>Consumes = Some [(''wood'', 1)], Requires = Some [''bench''],
       Produces = Some [(''plank'', 4)], Time = Some 1\<rparr>
     [(''bench'', 1), (''wood'', 5), (''plank'', 0)] = Inr True
   \<and> make_checker \<lparr>Consumes = Some [(''wood'', 1)], Requires = Some [''bench''],
       Produces = Some [(''plank'', 4)], Time = Some 1\<rparr>
     [(''bench'', 0), (''wood'', 5), (''plank'', 0)] = Inr False"
  using
    make_checker_iff [of "\<lparr>Consumes = Some [(''wood'', 1)], Requires = Some [''bench''],
       Produces = Some [(''plank'', 4)], Time = Some 1\<rparr>"
       "[(''bench'', 1), (''wood'', 5), (''plank'', 0)]"]
    make_checker_iff [of "\<lparr>Consumes = Some [(''wood'', 1)], Requires = Some [''bench''],
       Produces = Some [(''plank'', 4)], Time = Some 1\<rparr>"
       "[(''bench'', 0), (''wood'', 5), (''plank'', 0)]"]
  by (simp add: clause_def has_at_least_def)

text \<open>
  Claim C5. On a state that holds every item of the goal, \<^verbatim>\<open>is_goal(state)\<close> returns,
  and its value is true exactly when every goal item is held in the required amount or
  more. A second state that holds the goal items in the same quantities gets the same
  answer, whatever else the two states hold.
\<close>

theorem make_goal_checker_sound:
  assumes "fst ` set goal \<subseteq> fst ` set state"
  shows "make_goal_checker goal state = Inr (\<forall>(k, a) \<in> set goal. has_at_least state k a)
    \<and> (\<forall>state'. fst ` set goal \<subseteq> fst ` set state' \<and>
           (\<forall>k \<in> fst ` set goal. map_of state' k = map_of state k) \<longrightarrow>
         make_goal_checker goal state' = make_goal_checker goal state)"
proof (intro conjI allI impI)
  show g: "make_goal_checker goal state = Inr (\<forall>(k, a) \<in> set goal. has_at_least state k a)"
    using assms by (rule make_goal_checker_iff)
  fix state'
  assume a: "fst ` set goal \<subseteq> fst ` set state' \<and>
           (\<forall>k \<in> fst ` set goal. map_of state' k = map_of state k)"
  then have "make_goal_checker goal state' =
      Inr (\<forall>(k, a) \<in> set goal. has_at_least state' k a)"
    by (simp add: make_goal_checker_iff)
  moreover have "(\<forall>(k, a) \<in> set goal. has_at_least state' k a) =
      (\<forall>(k, a) \<in> set goal. has_at_least state k a)"
    using a by (force simp: has_at_least_def)
  ultimately show "make_goal_checker goal state' = make_goal_checker goal state"
    using g by simp
qed

theorem make_goal_checker_sound_witness:
  "make_goal_checker [(''plank'', 4)] [(''wood'', 4), (''plank'', 4)] = Inr True
   \<and> make_goal_checker [(''plank'', 4)] [(''wood'', 5), (''plank'', 0)] = Inr False
   \<and> make_goal_checker [(''plank'', 4)] [(''plank'', 4), (''wood'', 0), (''bench'', 7)] =
       make_goal_checker [(''plank'', 4)] [(''wood'', 4), (''plank'', 4)]"
  using
    make_goal_checker_sound [of "[(''plank'', 4)]" "[(''wood'', 4), (''plank'', 4)]",
      THEN conjunct1]
    make_goal_checker_sound [of "[(''plank'', 4)]" "[(''wood'', 5), (''plank'', 0)]",
      THEN conjunct1]
    make_goal_checker_sound [of "[(''plank'', 4)]" "[(''wood'', 4), (''plank'', 4)]",
      THEN conjunct2, rule_format, of "[(''plank'', 4), (''wood'', 0), (''bench'', 7)]"]
  by (simp add: has_at_least_def)

section \<open>Items a state does not hold\<close>

lemma check_consumes_missing:
  "\<forall>(n, b) \<in> set pre. has_at_least s n b \<Longrightarrow> k \<notin> fst ` set s \<Longrightarrow>
   check_consumes s (pre @ (k, a) # post) = Inl KeyError"
proof (induction pre)
  case Nil
  then show ?case by (simp add: getitem_absent)
next
  case (Cons c pre)
  obtain n b where c: "c = (n, b)" by (cases c)
  from Cons.prems c obtain q where "map_of s n = Some q" "b \<le> q"
    by (auto simp: has_at_least_def split: option.splits)
  with Cons show ?case by (simp add: c getitem_def)
qed

lemma check_requires_missing:
  "\<forall>n \<in> set pre. has_at_least s n 1 \<Longrightarrow> k \<notin> fst ` set s \<Longrightarrow>
   check_requires s (pre @ k # post) = Inl KeyError"
proof (induction pre)
  case Nil
  then show ?case by (simp add: getitem_absent)
next
  case (Cons n pre)
  from Cons.prems obtain q where "map_of s n = Some q" "1 \<le> q"
    by (auto simp: has_at_least_def split: option.splits)
  with Cons show ?case by (simp add: getitem_def)
qed

lemma make_goal_checker_missing:
  "\<forall>(n, b) \<in> set pre. has_at_least s n b \<Longrightarrow> k \<notin> fst ` set s \<Longrightarrow>
   make_goal_checker (pre @ (k, a) # post) s = Inl KeyError"
proof (induction pre)
  case Nil
  then show ?case by (simp add: getitem_absent)
next
  case (Cons c pre)
  obtain n b where c: "c = (n, b)" by (cases c)
  from Cons.prems c obtain q where "map_of s n = Some q" "b \<le> q"
    by (auto simp: has_at_least_def split: option.splits)
  with Cons show ?case by (simp add: c getitem_def)
qed

text \<open>
  Claim C10. \<^verbatim>\<open>check\<close> and \<^verbatim>\<open>is_goal\<close> index the state directly. When the state does
  not hold item \<open>k\<close>, and the loop reaches \<open>k\<close> (every entry before it is met), the call
  raises \<^verbatim>\<open>KeyError\<close>; it does not return false. This holds for \<open>k\<close> in the
  \<^verbatim>\<open>Consumes\<close> clause, for \<open>k\<close> in the \<^verbatim>\<open>Requires\<close> clause (the \<^verbatim>\<open>Consumes\<close> clause
  being met), and for \<open>k\<close> in the goal.
\<close>

theorem missing_item_raises_KeyError:
  assumes "k \<notin> fst ` set state"
  shows "(Consumes rule = Some (pre @ (k, a) # post) \<and>
            (\<forall>(n, b) \<in> set pre. has_at_least state n b) \<longrightarrow>
          make_checker rule state = Inl KeyError)
       \<and> ((\<forall>(n, b) \<in> set (clause (Consumes rule)). has_at_least state n b) \<and>
            Requires rule = Some (rpre @ k # rpost) \<and>
            (\<forall>n \<in> set rpre. has_at_least state n 1) \<longrightarrow>
          make_checker rule state = Inl KeyError)
       \<and> ((\<forall>(n, b) \<in> set pre. has_at_least state n b) \<longrightarrow>
          make_goal_checker (pre @ (k, a) # post) state = Inl KeyError)"
proof (intro conjI impI)
  assume "Consumes rule = Some (pre @ (k, a) # post) \<and>
            (\<forall>(n, b) \<in> set pre. has_at_least state n b)"
  then show "make_checker rule state = Inl KeyError"
    using assms by (simp add: make_checker_def check_consumes_missing)
next
  assume h: "(\<forall>(n, b) \<in> set (clause (Consumes rule)). has_at_least state n b) \<and>
            Requires rule = Some (rpre @ k # rpost) \<and>
            (\<forall>n \<in> set rpre. has_at_least state n 1)"
  have "fst ` set (clause (Consumes rule)) \<subseteq> fst ` set state"
    using h has_at_least_key by fastforce
  then have "(case Consumes rule of None \<Rightarrow> Inr True | Some cs \<Rightarrow> check_consumes state cs) =
      Inr True"
    using h by (simp add: consumes_part_iff)
  then show "make_checker rule state = Inl KeyError"
    using assms h by (simp add: make_checker_def check_requires_missing)
next
  assume "\<forall>(n, b) \<in> set pre. has_at_least state n b"
  then show "make_goal_checker (pre @ (k, a) # post) state = Inl KeyError"
    using assms by (rule make_goal_checker_missing)
qed

theorem missing_item_raises_KeyError_witness:
  "make_checker \<lparr>Consumes = Some [(''wood'', 1), (''ore'', 2)], Requires = None,
       Produces = Some [(''ingot'', 1)], Time = Some 1\<rparr> [(''wood'', 3)] = Inl KeyError
   \<and> make_checker \<lparr>Consumes = Some [(''wood'', 1)], Requires = Some [''bench''],
       Produces = Some [(''plank'', 4)], Time = Some 1\<rparr> [(''wood'', 3)] = Inl KeyError
   \<and> make_goal_checker [(''wood'', 1), (''plank'', 4)] [(''wood'', 3)] = Inl KeyError"
  using
    missing_item_raises_KeyError [of "''ore''" "[(''wood'', 3)]"
      "\<lparr>Consumes = Some [(''wood'', 1), (''ore'', 2)], Requires = None,
        Produces = Some [(''ingot'', 1)], Time = Some 1\<rparr>" "[(''wood'', 1)]" 2 "[]",
      THEN conjunct1]
    missing_item_raises_KeyError [of "''bench''" "[(''wood'', 3)]"
      "\<lparr>Consumes = Some [(''wood'', 1)], Requires = Some [''bench''],
        Produces = Some [(''plank'', 4)], Time = Some 1\<rparr>" _ _ _ "[]" "[]",
      THEN conjunct2, THEN conjunct1]
    missing_item_raises_KeyError [of "''plank''" "[(''wood'', 3)]" _ "[(''wood'', 1)]" 4 "[]",
      THEN conjunct2, THEN conjunct2]
  by (simp add: clause_def has_at_least_def)

section \<open>Effects\<close>

lemma setitem_fresh: "k \<notin> fst ` set s \<Longrightarrow> setitem s k v = s @ [(k, v)]"
  by (induction s) auto

lemma fold_setitem_distinct:
  "distinct (map fst (acc @ s)) \<Longrightarrow> fold (\<lambda>(k, v) acc. setitem acc k v) s acc = acc @ s"
proof (induction s arbitrary: acc)
  case Nil
  then show ?case by simp
next
  case (Cons c s)
  obtain k v where c: "c = (k, v)" by (cases c)
  from Cons.prems c have fresh: "k \<notin> fst ` set acc" by auto
  from Cons.prems c have "distinct (map fst ((acc @ [(k, v)]) @ s))" by simp
  then have "fold (\<lambda>(k, v) acc. setitem acc k v) s (acc @ [(k, v)]) = (acc @ [(k, v)]) @ s"
    by (rule Cons.IH)
  then show ?case by (simp add: c setitem_fresh[OF fresh])
qed

lemma State_update_empty: "State_inv s \<Longrightarrow> State_update [] s = s"
  using fold_setitem_distinct[of "[]" s] by (simp add: State_update_def State_inv_def)

lemma State_copy_eq: "State_inv (h ! a) \<Longrightarrow> State_copy h a = (h @ [h ! a], length h)"
  by (simp add: State_copy_def State_update_empty)

lemma setitem_shift:
  "distinct (map fst s) \<Longrightarrow> map_of s k = Some q \<Longrightarrow>
   setitem s k (q + d) = map (\<lambda>(k', q'). (k', q' + (if k' = k then d else 0))) s"
proof (induction s)
  case Nil
  then show ?case by simp
next
  case (Cons c s)
  obtain k' q' where c: "c = (k', q')" by (cases c)
  show ?case
  proof (cases "k' = k")
    case True
    with Cons.prems c have "q' = q" by simp
    moreover have "map (\<lambda>(k', q'). (k', q' + (if k' = k then d else 0))) s = s"
      using Cons.prems c True by (intro map_idI) (auto simp: rev_image_eqI)
    ultimately show ?thesis using True c by simp
  next
    case False
    with Cons c show ?thesis by simp
  qed
qed


lemma shift_keys: "map fst (shift d s) = map fst s"
  by (induction s) (auto simp: shift_def)

lemma map_of_shift: "map_of (shift d s) k = map_option (\<lambda>q. q + d k) (map_of s k)"
  by (induction s) (auto simp: shift_def)

lemma shift_shift: "shift d (shift e s) = shift (\<lambda>k. e k + d k) s"
  by (induction s) (auto simp: shift_def)

lemma shift_zero: "shift (\<lambda>k. 0) s = s"
  by (induction s) (auto simp: shift_def)

lemma consume_shift:
  "n < length h \<Longrightarrow> distinct (map fst (h ! n)) \<Longrightarrow> fst ` set cs \<subseteq> fst ` set (h ! n) \<Longrightarrow>
   consume h n cs = Inr (h[n := shift (\<lambda>k. - amount_for cs k) (h ! n)])"
proof (induction cs arbitrary: h)
  case Nil
  then show ?case by (simp add: shift_zero)
next
  case (Cons c cs)
  obtain k a where c: "c = (k, a)" by (cases c)
  from Cons.prems c have "k \<in> fst ` set (h ! n)" by auto
  then obtain q where q: "map_of (h ! n) k = Some q" "getitem (h ! n) k = Inr q"
    using getitem_present by blast
  let ?s1 = "shift (\<lambda>k'. if k' = k then - a else 0) (h ! n)"
  have s1: "setitem (h ! n) k (q - a) = ?s1"
    using setitem_shift[OF Cons.prems(2) q(1), of "- a"] by (simp add: shift_def)
  let ?h1 = "h[n := ?s1]"
  have h1n: "?h1 ! n = ?s1" using Cons.prems(1) by simp
  have "consume ?h1 n cs = Inr (?h1[n := shift (\<lambda>k. - amount_for cs k) (?h1 ! n)])"
  proof (rule Cons.IH)
    show "n < length ?h1" using Cons.prems(1) by simp
    show "distinct (map fst (?h1 ! n))" using Cons.prems(2) by (simp add: h1n shift_keys)
    have "fst ` set (?h1 ! n) = fst ` set (h ! n)"
      using shift_keys[of _ "h ! n"] by (metis h1n list.set_map)
    then show "fst ` set cs \<subseteq> fst ` set (?h1 ! n)" using Cons.prems(3) by auto
  qed
  moreover have "shift (\<lambda>k. - amount_for cs k) ?s1 = shift (\<lambda>k'. - amount_for (c # cs) k') (h ! n)"
    by (simp add: shift_shift c) (rule arg_cong[where f="\<lambda>d. shift d (h ! n)"], auto)
  ultimately show ?case using q s1 by (simp add: c h1n)
qed

lemma produce_shift:
  "n < length h \<Longrightarrow> distinct (map fst (h ! n)) \<Longrightarrow> fst ` set ps \<subseteq> fst ` set (h ! n) \<Longrightarrow>
   produce h n ps = Inr (h[n := shift (\<lambda>k. amount_for ps k) (h ! n)])"
proof (induction ps arbitrary: h)
  case Nil
  then show ?case by (simp add: shift_zero)
next
  case (Cons c cs)
  obtain k a where c: "c = (k, a)" by (cases c)
  from Cons.prems c have "k \<in> fst ` set (h ! n)" by auto
  then obtain q where q: "map_of (h ! n) k = Some q" "getitem (h ! n) k = Inr q"
    using getitem_present by blast
  let ?s1 = "shift (\<lambda>k'. if k' = k then a else 0) (h ! n)"
  have s1: "setitem (h ! n) k (q + a) = ?s1"
    using setitem_shift[OF Cons.prems(2) q(1), of a] by (simp add: shift_def)
  let ?h1 = "h[n := ?s1]"
  have h1n: "?h1 ! n = ?s1" using Cons.prems(1) by simp
  have "produce ?h1 n cs = Inr (?h1[n := shift (\<lambda>k. amount_for cs k) (?h1 ! n)])"
  proof (rule Cons.IH)
    show "n < length ?h1" using Cons.prems(1) by simp
    show "distinct (map fst (?h1 ! n))" using Cons.prems(2) by (simp add: h1n shift_keys)
    have "fst ` set (?h1 ! n) = fst ` set (h ! n)"
      using shift_keys[of _ "h ! n"] by (metis h1n list.set_map)
    then show "fst ` set cs \<subseteq> fst ` set (?h1 ! n)" using Cons.prems(3) by auto
  qed
  moreover have "shift (\<lambda>k. amount_for cs k) ?s1 = shift (\<lambda>k'. amount_for (c # cs) k') (h ! n)"
    by (simp add: shift_shift c) (rule arg_cong[where f="\<lambda>d. shift d (h ! n)"], auto)
  ultimately show ?case using q s1 by (simp add: c h1n)
qed

lemma make_effector_shift:
  assumes "a < length h" "State_inv (h ! a)" "Produces rule = Some ps"
    "fst ` set (clause (Consumes rule)) \<union> fst ` set ps \<subseteq> fst ` set (h ! a)"
  shows "make_effector rule h a =
     Inr (h @ [shift (\<lambda>k. amount_for ps k - amount_for (clause (Consumes rule)) k) (h ! a)], length h)"
proof -
  let ?h0 = "h @ [h ! a]"
  let ?n = "length h"
  have n: "?n < length ?h0" "?h0 ! ?n = h ! a" by simp_all
  have d: "distinct (map fst (?h0 ! ?n))" using assms(2) by (simp add: State_inv_def)
  have c: "(case Consumes rule of None \<Rightarrow> Inr ?h0 | Some cs \<Rightarrow> consume ?h0 ?n cs) =
      Inr (h @ [shift (\<lambda>k. - amount_for (clause (Consumes rule)) k) (h ! a)])"
  proof (cases "Consumes rule")
    case None
    then show ?thesis by (simp add: clause_def shift_zero)
  next
    case (Some cs)
    with assms(4) have "fst ` set cs \<subseteq> fst ` set (?h0 ! ?n)" by (simp add: clause_def)
    from consume_shift[OF n(1) d this] Some show ?thesis by (simp add: clause_def)
  qed
  let ?s1 = "shift (\<lambda>k. - amount_for (clause (Consumes rule)) k) (h ! a)"
  let ?h1 = "h @ [?s1]"
  have n1: "?n < length ?h1" "?h1 ! ?n = ?s1" by simp_all
  have d1: "distinct (map fst (?h1 ! ?n))" using assms(2) by (simp add: State_inv_def shift_keys)
  have "fst ` set ?s1 = fst ` set (h ! a)"
    using shift_keys[of _ "h ! a"] by (metis list.set_map)
  with assms(4) have "fst ` set ps \<subseteq> fst ` set (?h1 ! ?n)" by simp
  from produce_shift[OF n1(1) d1 this]
  have p: "produce ?h1 ?n ps =
      Inr (h @ [shift (\<lambda>k. amount_for ps k - amount_for (clause (Consumes rule)) k) (h ! a)])"
    by (simp add: shift_shift)
  show ?thesis
    unfolding make_effector_def State_copy_eq[OF assms(2)] using c p assms(3) by simp
qed

lemma amount_for_absent: "k \<notin> fst ` set xs \<Longrightarrow> amount_for xs k = 0"
  by (induction xs) auto

lemma amount_for_entry: "distinct (map fst xs) \<Longrightarrow> (k, a) \<in> set xs \<Longrightarrow> amount_for xs k = a"
  by (induction xs) (auto simp: amount_for_absent rev_image_eqI)

lemma amount_for_nonneg: "\<forall>(n, p) \<in> set xs. 0 \<le> p \<Longrightarrow> 0 \<le> amount_for xs k"
  by (induction xs) auto


text \<open>
  Claim C4. \<^verbatim>\<open>effect(state)\<close>, called on the object at address \<open>a\<close> of the store \<open>h\<close>,
  for a rule with a \<^verbatim>\<open>Produces\<close> clause and a state that holds every item the
  \<^verbatim>\<open>Consumes\<close> and \<^verbatim>\<open>Produces\<close> clauses name. It returns the address of a new object
  \<open>s'\<close>, allocated behind the objects of \<open>h\<close>, all of which (the input state among them)
  are as they were. The new state has the keys of the input in the same order; the
  quantity of every item is the input's, less the amount the rule consumes of it, plus
  the amount it produces of it; an item that neither clause names, such as one that is
  only required, keeps its quantity.
\<close>

theorem make_effector_frame:
  assumes "a < length h" and "State_inv (h ! a)" and "Produces rule = Some ps"
    and "fst ` set (clause (Consumes rule)) \<union> fst ` set ps \<subseteq> fst ` set (h ! a)"
  shows "\<exists>s'. make_effector rule h a = Inr (h @ [s'], length h)
     \<and> map fst s' = map fst (h ! a)
     \<and> (\<forall>k q. map_of (h ! a) k = Some q \<longrightarrow>
           map_of s' k = Some (q - amount_for (clause (Consumes rule)) k + amount_for ps k))
     \<and> (\<forall>k. k \<notin> fst ` set (clause (Consumes rule)) \<union> fst ` set ps \<longrightarrow>
           map_of s' k = map_of (h ! a) k)"
proof -
  let ?d = "\<lambda>k. amount_for ps k - amount_for (clause (Consumes rule)) k"
  let ?s' = "shift ?d (h ! a)"
  have "make_effector rule h a = Inr (h @ [?s'], length h)"
    using assms by (rule make_effector_shift)
  moreover have "map fst ?s' = map fst (h ! a)"
    by (rule shift_keys)
  moreover have "\<forall>k q. map_of (h ! a) k = Some q \<longrightarrow>
      map_of ?s' k = Some (q - amount_for (clause (Consumes rule)) k + amount_for ps k)"
    by (simp add: map_of_shift)
  moreover have "\<forall>k. k \<notin> fst ` set (clause (Consumes rule)) \<union> fst ` set ps \<longrightarrow>
      map_of ?s' k = map_of (h ! a) k"
  proof (intro allI impI)
    fix k
    assume "k \<notin> fst ` set (clause (Consumes rule)) \<union> fst ` set ps"
    then have "?d k = 0" by (simp add: amount_for_absent)
    then show "map_of ?s' k = map_of (h ! a) k"
      by (cases "map_of (h ! a) k") (simp_all add: map_of_shift)
  qed
  ultimately show ?thesis by blast
qed

theorem make_effector_frame_witness:
  "make_effector \<lparr>Consumes = Some [(''wood'', 1)], Requires = Some [''bench''],
       Produces = Some [(''plank'', 4)], Time = Some 1\<rparr>
     [[(''bench'', 1), (''wood'', 5), (''plank'', 0)]] 0 =
   Inr ([[(''bench'', 1), (''wood'', 5), (''plank'', 0)],
         [(''bench'', 1), (''wood'', 4), (''plank'', 4)]], 1)"
proof -
  let ?rule = "\<lparr>Consumes = Some [(''wood'', 1)], Requires = Some [''bench''],
       Produces = Some [(''plank'', 4)], Time = Some 1\<rparr>"
  let ?s = "[(''bench'', 1), (''wood'', 5), (''plank'', 0)] :: state"
  let ?ps = "[(''plank'', 4)] :: (string \<times> int) list"
  have "\<exists>s'. make_effector ?rule [?s] 0 = Inr ([?s] @ [s'], length [?s])
     \<and> map fst s' = map fst ([?s] ! 0)
     \<and> (\<forall>k q. map_of ([?s] ! 0) k = Some q \<longrightarrow>
           map_of s' k = Some (q - amount_for (clause (Consumes ?rule)) k + amount_for ?ps k))
     \<and> (\<forall>k. k \<notin> fst ` set (clause (Consumes ?rule)) \<union> fst ` set ?ps \<longrightarrow>
           map_of s' k = map_of ([?s] ! 0) k)"
    by (rule make_effector_frame) (simp_all add: State_inv_def clause_def)
  then obtain s' where e: "make_effector ?rule [?s] 0 = Inr ([?s] @ [s'], length [?s])"
    and k: "map fst s' = map fst ([?s] ! 0)"
    and q: "\<forall>k q. map_of ([?s] ! 0) k = Some q \<longrightarrow>
           map_of s' k = Some (q - amount_for (clause (Consumes ?rule)) k + amount_for ?ps k)"
    by blast
  from q have "map_of s' ''bench'' = Some 1" "map_of s' ''wood'' = Some 4" "map_of s' ''plank'' = Some 4"
    by (simp_all add: clause_def)
  with k have "s' = [(''bench'', 1), (''wood'', 4), (''plank'', 4)]"
    by (auto simp: map_eq_Cons_conv)
  with e show ?thesis by simp
qed


text \<open>
  Claim C6, amended. Let the rule have a \<^verbatim>\<open>Produces\<close> clause, the state hold the items
  of the \<^verbatim>\<open>Consumes\<close> and \<^verbatim>\<open>Produces\<close> clauses, and \<^verbatim>\<open>check(state)\<close> return true.
  Then \<^verbatim>\<open>effect(state)\<close> returns a state in which every consumed item \<open>k\<close> has a
  quantity that is no less than the amount the rule produces of \<open>k\<close>: consumption alone
  never takes it below zero. The quantity is non-negative when no amount of the
  \<^verbatim>\<open>Produces\<close> clause is negative.
\<close>

theorem consumed_items_stay_nonnegative:
  assumes "a < length h" and "State_inv (h ! a)" and "Produces rule = Some ps"
    and "fst ` set (clause (Consumes rule)) \<union> fst ` set ps \<subseteq> fst ` set (h ! a)"
    and "make_checker rule (h ! a) = Inr True"
    and "distinct (map fst (clause (Consumes rule)))"
    and "(k, c) \<in> set (clause (Consumes rule))"
  shows "\<exists>h' n q'. make_effector rule h a = Inr (h', n) \<and> map_of (h' ! n) k = Some q' \<and>
           amount_for ps k \<le> q' \<and> ((\<forall>(i, p) \<in> set ps. 0 \<le> p) \<longrightarrow> 0 \<le> q')"
proof -
  have sub: "fst ` set (clause (Consumes rule)) \<subseteq> fst ` set (h ! a)" using assms(4) by simp
  have "(case Consumes rule of None \<Rightarrow> Inr True | Some cs \<Rightarrow> check_consumes (h ! a) cs) = Inr True"
    using assms(5) unfolding make_checker_def by (auto split: sum.splits bool.splits)
  then have "\<forall>(k, c) \<in> set (clause (Consumes rule)). has_at_least (h ! a) k c"
    using consumes_part_iff[OF sub] by simp
  with assms(7) have "has_at_least (h ! a) k c" by auto
  then obtain q where q: "map_of (h ! a) k = Some q" "c \<le> q"
    by (auto simp: has_at_least_def split: option.splits)
  have c: "amount_for (clause (Consumes rule)) k = c"
    using assms(6,7) by (rule amount_for_entry)
  let ?s' = "shift (\<lambda>k. amount_for ps k - amount_for (clause (Consumes rule)) k) (h ! a)"
  have e: "make_effector rule h a = Inr (h @ [?s'], length h)"
    using assms(1-4) by (rule make_effector_shift)
  have m: "map_of ((h @ [?s']) ! length h) k = Some (q + (amount_for ps k - c))"
    using q c by (simp add: map_of_shift)
  have "amount_for ps k \<le> q + (amount_for ps k - c)" using q by simp
  moreover have "(\<forall>(i, p) \<in> set ps. 0 \<le> p) \<longrightarrow> 0 \<le> q + (amount_for ps k - c)"
    using q amount_for_nonneg[of ps k] by auto
  ultimately show ?thesis using e m by blast
qed


theorem consumed_items_stay_nonnegative_witness:
  "\<exists>h' n q'. make_effector \<lparr>Consumes = Some [(''wood'', 1)], Requires = Some [''bench''],
       Produces = Some [(''plank'', 4)], Time = Some 1\<rparr>
     [[(''bench'', 1), (''wood'', 1), (''plank'', 0)]] 0 = Inr (h', n)
   \<and> map_of (h' ! n) ''wood'' = Some q' \<and> 0 \<le> q'"
proof -
  let ?rule = "\<lparr>Consumes = Some [(''wood'', 1)], Requires = Some [''bench''],
       Produces = Some [(''plank'', 4)], Time = Some 1\<rparr>"
  let ?s = "[(''bench'', 1), (''wood'', 1), (''plank'', 0)] :: state"
  let ?ps = "[(''plank'', 4)] :: (string \<times> int) list"
  have "\<exists>h' n q'. make_effector ?rule [?s] 0 = Inr (h', n) \<and> map_of (h' ! n) ''wood'' = Some q' \<and>
           amount_for ?ps ''wood'' \<le> q' \<and> ((\<forall>(i, p) \<in> set ?ps. 0 \<le> p) \<longrightarrow> 0 \<le> q')"
    by (rule consumed_items_stay_nonnegative [where c = 1])
      (simp_all add: State_inv_def clause_def make_checker_def getitem_def)
  then show ?thesis by auto
qed


text \<open>
  The claim as stated, for every rule, fails for a rule that produces a negative amount
  of an item it consumes: \<^verbatim>\<open>check\<close> accepts the state and \<^verbatim>\<open>effect\<close> leaves \<open>- 5\<close>.
\<close>

theorem consumed_items_stay_nonnegative_counterexample:
  "State_inv [(''wood'', 1)]
   \<and> make_checker \<lparr>Consumes = Some [(''wood'', 1)], Requires = None,
        Produces = Some [(''wood'', - 5)], Time = Some 1\<rparr> [(''wood'', 1)] = Inr True
   \<and> make_effector \<lparr>Consumes = Some [(''wood'', 1)], Requires = None,
        Produces = Some [(''wood'', - 5)], Time = Some 1\<rparr> [[(''wood'', 1)]] 0 =
       Inr ([[(''wood'', 1)], [(''wood'', - 5)]], 1)"
  by (simp add: State_inv_def make_checker_def make_effector_def State_copy_def
      State_update_def getitem_def)

section \<open>Equality and hashing of states\<close>

lemma same_keys_subset_eq:
  "map fst s = map fst t \<Longrightarrow> distinct (map fst t) \<Longrightarrow> set s \<subseteq> set t \<Longrightarrow> s = t"
proof (induction s arbitrary: t)
  case Nil
  then show ?case by simp
next
  case (Cons c s)
  then obtain c' t' where t: "t = c' # t'" by (cases t) auto
  obtain k v where c: "c = (k, v)" by (cases c)
  obtain v' where c': "c' = (k, v')" using Cons.prems(1) t c by (cases c') auto
  have keys: "map fst s = map fst t'" using Cons.prems(1) t by simp
  have fresh: "k \<notin> fst ` set t'" using Cons.prems(2) t c' by simp
  have "(k, v) \<in> set t" using Cons.prems(3) c by simp
  with fresh have v: "v = v'" using t c' by (auto simp: rev_image_eqI)
  have "set s \<subseteq> set t'"
  proof
    fix x assume x: "x \<in> set s"
    then have "fst x \<in> fst ` set t'" using keys by (metis image_eqI list.set_map)
    with fresh have "fst x \<noteq> k" by auto
    moreover have "x \<in> set t" using x Cons.prems(3) by auto
    ultimately show "x \<in> set t'" using t c' by auto
  qed
  with keys Cons.prems(2) t have "s = t'" by (intro Cons.IH) simp_all
  with v c c' t show ?case by simp
qed

lemma State_eq_iff: "State_inv s \<Longrightarrow> State_inv t \<Longrightarrow> State_eq s t \<longleftrightarrow> s = t"
proof
  assume inv: "State_inv s" "State_inv t" and eq: "State_eq s t"
  from eq have keys: "map fst s = map fst t"
    by (simp add: State_eq_def list_all2_eq)
  from eq have "\<forall>(k, v) \<in> set s. map_of t k = Some v"
    by (simp add: State_eq_def dict_eq_def list_all_iff)
  then have "set s \<subseteq> set t" by (auto dest: map_of_SomeD)
  with keys inv(2) show "s = t" by (simp add: same_keys_subset_eq State_inv_def)
next
  assume inv: "State_inv s" "State_inv t" and "s = t"
  then show "State_eq s t"
    by (auto simp: State_eq_def dict_eq_def list_all_iff State_inv_def list_all2_eq[symmetric])
qed

lemma State_init_id: "distinct (map fst e) \<Longrightarrow> State_init e = e"
  by (simp add: State_init_def State_update_empty State_inv_def)

lemma alist_eq_iff:
  "distinct (map fst s) \<Longrightarrow> distinct (map fst t) \<Longrightarrow>
   s = t \<longleftrightarrow> (map_of s = map_of t \<and> map fst s = map fst t)"
proof (intro iffI conjI)
  assume d: "distinct (map fst s)" "distinct (map fst t)"
    and h: "map_of s = map_of t \<and> map fst s = map fst t"
  have "set s \<subseteq> set t"
  proof
    fix x assume "x \<in> set s"
    then have "map_of s (fst x) = Some (snd x)" using d(1) by simp
    then have "map_of t (fst x) = Some (snd x)" using h by simp
    then show "x \<in> set t" using map_of_SomeD by fastforce
  qed
  with h d(2) show "s = t" by (simp add: same_keys_subset_eq)
qed simp_all


text \<open>
  Claim C7, amended. For states built from entry lists with pairwise different keys:
  the hash of a state is the hash of that state; equality is reflexive, symmetric and
  transitive; two states are equal exactly when they were built from equal mappings
  whose keys were inserted in the same order; and equal states have equal hashes.
\<close>

theorem State_eq_order_sensitive:
  assumes "distinct (map fst e1)" and "distinct (map fst e2)" and "distinct (map fst e3)"
  shows "State_hash hash (State_init e1) = State_hash hash (State_init e1)
    \<and> State_eq (State_init e1) (State_init e1)
    \<and> (State_eq (State_init e1) (State_init e2) \<longrightarrow> State_eq (State_init e2) (State_init e1))
    \<and> (State_eq (State_init e1) (State_init e2) \<and> State_eq (State_init e2) (State_init e3) \<longrightarrow>
         State_eq (State_init e1) (State_init e3))
    \<and> (State_eq (State_init e1) (State_init e2) \<longleftrightarrow>
         map_of e1 = map_of e2 \<and> map fst e1 = map fst e2)
    \<and> (State_eq (State_init e1) (State_init e2) \<longrightarrow>
         State_hash hash (State_init e1) = State_hash hash (State_init e2))"
proof -
  have i: "State_init e1 = e1" "State_init e2 = e2" "State_init e3 = e3"
    using assms by (simp_all add: State_init_id)
  have inv: "State_inv e1" "State_inv e2" "State_inv e3"
    using assms by (simp_all add: State_inv_def)
  have eq: "State_eq e1 e1 \<longleftrightarrow> e1 = e1" "State_eq e1 e2 \<longleftrightarrow> e1 = e2" "State_eq e2 e1 \<longleftrightarrow> e2 = e1"
    "State_eq e2 e3 \<longleftrightarrow> e2 = e3" "State_eq e1 e3 \<longleftrightarrow> e1 = e3"
    using inv by (simp_all add: State_eq_iff)
  have "e1 = e2 \<longleftrightarrow> map_of e1 = map_of e2 \<and> map fst e1 = map fst e2"
    using assms(1,2) by (rule alist_eq_iff)
  then show ?thesis unfolding i eq by auto
qed


theorem State_eq_order_sensitive_witness:
  "State_eq (State_init [(''wood'', 5), (''plank'', 0)]) (State_init [(''wood'', 5), (''plank'', 0)])
   \<and> \<not> State_eq (State_init [(''wood'', 5), (''plank'', 0)]) (State_init [(''plank'', 0), (''wood'', 5)])"
  using State_eq_order_sensitive [of "[(''wood'', 5), (''plank'', 0)]" "[(''plank'', 0), (''wood'', 5)]"
      "[(''wood'', 5), (''plank'', 0)]" "\<lambda>_. 0"]
  by simp


text \<open>
  The claim as stated fails: two states built from the same mapping, with the entries
  inserted in different orders, hold the same entries and are not equal.
\<close>

theorem State_eq_order_sensitive_counterexample:
  "map_of [(''wood'', 5), (''plank'', 0 :: int)] = map_of [(''plank'', 0), (''wood'', 5)]
   \<and> dict_eq (State_init [(''wood'', 5), (''plank'', 0)]) (State_init [(''plank'', 0), (''wood'', 5)])
   \<and> \<not> State_eq (State_init [(''wood'', 5), (''plank'', 0)]) (State_init [(''plank'', 0), (''wood'', 5)])"
proof -
  have "map_of [(''wood'', 5), (''plank'', 0 :: int)] = map_of [(''plank'', 0), (''wood'', 5)]"
    by (rule ext) simp
  then show ?thesis
    by (simp add: State_init_def State_update_def State_eq_def dict_eq_def)
qed


section \<open>Rule compilation\<close>

lemma build_rules_acc:
  "\<forall>(n, r) \<in> set rules. Time r \<noteq> None \<Longrightarrow>
   build_rules acc rules =
     Inr (acc @ map (\<lambda>(n, r). \<lparr>name = n, check = make_checker r, effect = make_effector r,
                               cost = the (Time r)\<rparr>) rules)"
proof (induction rules arbitrary: acc)
  case Nil
  then show ?case by simp
next
  case (Cons x rules)
  obtain n r where x: "x = (n, r)" by (cases x)
  from Cons.prems x obtain t where t: "Time r = Some t" by auto
  from Cons.prems have "\<forall>(n, r) \<in> set rules. Time r \<noteq> None" by simp
  from Cons.IH[OF this] show ?case by (simp add: x t)
qed


lemma crafting_recipes_built:
  "build_rules [] [(''chop'', chop), (''craft bench'', craft_bench)] = Inr crafting_recipes"
  by (simp add: chop_def craft_bench_def crafting_recipes_def)

lemma getitem_error: "getitem s k = Inl e \<Longrightarrow> e = KeyError"
  by (auto simp: getitem_def split: option.splits)

lemma getitem_Inr_key: "getitem s k = Inr q \<Longrightarrow> k \<in> fst ` set s"
  by (cases "map_of s k") (auto simp: getitem_def dest: map_of_SomeD intro: rev_image_eqI)

lemma setitem_keys: "fst ` set (setitem s k v) = insert k (fst ` set s)"
proof (induction s)
  case Nil
  then show ?case by simp
next
  case (Cons c s)
  obtain k' v' where c: "c = (k', v')" by (cases c)
  from Cons show ?case by (cases "k' = k") (simp_all add: c insert_commute)
qed

lemma State_update_keys: "fst ` set (State_update s other) = fst ` set s \<union> fst ` set other"
  unfolding State_update_def
proof (induction other arbitrary: s)
  case Nil
  then show ?case by simp
next
  case (Cons c other)
  obtain k v where c: "c = (k, v)" by (cases c)
  from Cons[of "setitem s k v"] show ?case by (simp add: c setitem_keys)
qed

lemma consume_missing:
  "n < length h \<Longrightarrow> k \<notin> fst ` set (h ! n) \<Longrightarrow> k \<in> fst ` set cs \<Longrightarrow>
   consume h n cs = Inl KeyError"
proof (induction cs arbitrary: h)
  case Nil
  then show ?case by simp
next
  case (Cons c cs)
  obtain nm a where c: "c = (nm, a)" by (cases c)
  show ?case
  proof (cases "getitem (h ! n) nm")
    case (Inl e)
    then show ?thesis using getitem_error[OF Inl] by (simp add: c)
  next
    case (Inr q)
    then have present: "nm \<in> fst ` set (h ! n)" by (rule getitem_Inr_key)
    with Cons.prems(2) have "nm \<noteq> k" by auto
    with Cons.prems(3) c have k: "k \<in> fst ` set cs" by auto
    let ?h1 = "h[n := setitem (h ! n) nm (q - a)]"
    have "fst ` set (?h1 ! n) = fst ` set (h ! n)"
      using Cons.prems(1) present by (auto simp: setitem_keys)
    with Cons.prems have "consume ?h1 n cs = Inl KeyError"
      by (intro Cons.IH k) simp_all
    with Inr show ?thesis by (simp add: c)
  qed
qed

lemma produce_missing:
  "n < length h \<Longrightarrow> k \<notin> fst ` set (h ! n) \<Longrightarrow> k \<in> fst ` set ps \<Longrightarrow>
   produce h n ps = Inl KeyError"
proof (induction ps arbitrary: h)
  case Nil
  then show ?case by simp
next
  case (Cons c cs)
  obtain nm a where c: "c = (nm, a)" by (cases c)
  show ?case
  proof (cases "getitem (h ! n) nm")
    case (Inl e)
    then show ?thesis using getitem_error[OF Inl] by (simp add: c)
  next
    case (Inr q)
    then have present: "nm \<in> fst ` set (h ! n)" by (rule getitem_Inr_key)
    with Cons.prems(2) have "nm \<noteq> k" by auto
    with Cons.prems(3) c have k: "k \<in> fst ` set cs" by auto
    let ?h1 = "h[n := setitem (h ! n) nm (q + a)]"
    have "fst ` set (?h1 ! n) = fst ` set (h ! n)"
      using Cons.prems(1) present by (auto simp: setitem_keys)
    with Cons.prems have "produce ?h1 n cs = Inl KeyError"
      by (intro Cons.IH k) simp_all
    with Inr show ?thesis by (simp add: c)
  qed
qed

lemma consume_result:
  "n < length h \<Longrightarrow>
   (case consume h n cs of
      Inl e \<Rightarrow> e = KeyError
    | Inr h' \<Rightarrow> length h' = length h \<and> fst ` set (h' ! n) = fst ` set (h ! n))"
proof (induction cs arbitrary: h)
  case Nil
  then show ?case by simp
next
  case (Cons c cs)
  obtain nm a where c: "c = (nm, a)" by (cases c)
  show ?case
  proof (cases "getitem (h ! n) nm")
    case (Inl e)
    then show ?thesis using getitem_error[OF Inl] by (simp add: c)
  next
    case (Inr q)
    then have present: "nm \<in> fst ` set (h ! n)" by (rule getitem_Inr_key)
    let ?h1 = "h[n := setitem (h ! n) nm (q - a)]"
    have keys: "fst ` set (?h1 ! n) = fst ` set (h ! n)" "length ?h1 = length h"
      using Cons.prems(1) present by (auto simp: setitem_keys)
    have "case consume ?h1 n cs of
      Inl e \<Rightarrow> e = KeyError
    | Inr h' \<Rightarrow> length h' = length ?h1 \<and> fst ` set (h' ! n) = fst ` set (?h1 ! n)"
      using Cons.prems by (intro Cons.IH) simp
    with keys Inr show ?thesis by (simp add: c split: sum.splits)
  qed
qed

lemma make_effector_missing:
  assumes "a < length h"
    and "k \<in> fst ` set (clause (Consumes rule)) \<union> fst ` set (clause (Produces rule))"
    and "k \<notin> fst ` set (h ! a)"
  shows "make_effector rule h a = Inl KeyError"
proof -
  let ?u = "State_update [] (h ! a)"
  let ?h0 = "h @ [?u]"
  let ?n = "length h"
  have copy: "State_copy h a = (?h0, ?n)" by (simp add: State_copy_def)
  have n: "?n < length ?h0" by simp
  have keys0: "fst ` set (?h0 ! ?n) = fst ` set (h ! a)" by (simp add: State_update_keys)
  with assms(3) have k0: "k \<notin> fst ` set (?h0 ! ?n)" by simp
  let ?c = "case Consumes rule of None \<Rightarrow> Inr ?h0 | Some cs \<Rightarrow> consume ?h0 ?n cs"
  show ?thesis
  proof (cases "k \<in> fst ` set (clause (Consumes rule))")
    case True
    then obtain cs where cs: "Consumes rule = Some cs" "k \<in> fst ` set cs"
      by (cases "Consumes rule") (auto simp: clause_def)
    from consume_missing[OF n k0 cs(2)] cs(1) show ?thesis
      by (simp add: make_effector_def copy)
  next
    case False
    with assms(2) obtain ps where ps: "Produces rule = Some ps" "k \<in> fst ` set ps"
      by (cases "Produces rule") (auto simp: clause_def)
    have c: "case ?c of Inl e \<Rightarrow> e = KeyError
        | Inr h' \<Rightarrow> length h' = length ?h0 \<and> fst ` set (h' ! ?n) = fst ` set (?h0 ! ?n)"
      using consume_result[OF n, of _] by (cases "Consumes rule") simp_all
    show ?thesis
    proof (cases ?c)
      case (Inl e)
      with c have "e = KeyError" by simp
      with Inl show ?thesis by (simp add: make_effector_def copy)
    next
      case (Inr h1)
      with c have h1: "?n < length h1" "k \<notin> fst ` set (h1 ! ?n)" using k0 by simp_all
      from produce_missing[OF h1 ps(2)] Inr ps(1) show ?thesis
        by (simp add: make_effector_def copy)
    qed
  qed
qed

lemma check_consumes_unmet:
  "\<forall>(n, b) \<in> set pre. has_at_least s n b \<Longrightarrow> map_of s k = Some q \<Longrightarrow> q < a \<Longrightarrow>
   check_consumes s (pre @ (k, a) # post) = Inr False"
proof (induction pre)
  case Nil
  then show ?case by (simp add: getitem_def)
next
  case (Cons c pre)
  obtain n b where c: "c = (n, b)" by (cases c)
  from Cons.prems c obtain q' where "map_of s n = Some q'" "b \<le> q'"
    by (auto simp: has_at_least_def split: option.splits)
  with Cons show ?case by (simp add: c getitem_def)
qed

lemma make_checker_consumes_missing:
  "Consumes r = Some (pre @ (k, a) # post) \<Longrightarrow> \<forall>(n, b) \<in> set pre. has_at_least state n b \<Longrightarrow>
   k \<notin> fst ` set state \<Longrightarrow> make_checker r state = Inl KeyError"
  by (simp add: make_checker_def check_consumes_missing)

lemma make_checker_consumes_unmet:
  "Consumes r = Some (pre @ (k, a) # post) \<Longrightarrow> \<forall>(n, b) \<in> set pre. has_at_least state n b \<Longrightarrow>
   map_of state k = Some q \<Longrightarrow> q < a \<Longrightarrow> make_checker r state = Inr False"
  by (simp add: make_checker_def check_consumes_unmet)

lemma make_checker_requires_missing:
  assumes "\<forall>(n, b) \<in> set (clause (Consumes r)). has_at_least state n b"
    and "Requires r = Some (rpre @ k # rpost)"
    and "\<forall>n \<in> set rpre. has_at_least state n 1"
    and "k \<notin> fst ` set state"
  shows "make_checker r state = Inl KeyError"
proof -
  have "fst ` set (clause (Consumes r)) \<subseteq> fst ` set state"
    using assms(1) has_at_least_key by fastforce
  then have "(case Consumes r of None \<Rightarrow> Inr True | Some cs \<Rightarrow> check_consumes state cs) =
      Inr True"
    using assms(1) by (simp add: consumes_part_iff)
  then show ?thesis
    using assms(2-4) by (simp add: make_checker_def check_requires_missing)
qed


text \<open>
  Claim C9, amended. Rule compilation validates nothing. For rule descriptions that
  each have a \<^verbatim>\<open>Time\<close> entry, whatever items their clauses name and whatever the sign
  of the cost, the rule-building loop returns one recipe for each description, with the
  closures of \<^verbatim>\<open>make_checker\<close> and \<^verbatim>\<open>make_effector\<close> and the cost as it was given; it
  raises nothing. Malformed data shows when a compiled closure runs, if at all.
  \<^verbatim>\<open>check\<close> raises \<^verbatim>\<open>KeyError\<close> when its loop reaches a \<^verbatim>\<open>Consumes\<close> or \<^verbatim>\<open>Requires\<close>
  item that the state does not hold, every entry before it being met; it returns false,
  and raises nothing, when it reaches an unmet \<^verbatim>\<open>Consumes\<close> entry first, whatever the
  entries behind it name; and it does not depend on the \<^verbatim>\<open>Produces\<close> clause.
  \<^verbatim>\<open>effect\<close> raises \<^verbatim>\<open>KeyError\<close> on every state that does not hold some item of the
  \<^verbatim>\<open>Consumes\<close> or of the \<^verbatim>\<open>Produces\<close> clause.
\<close>

theorem build_rules_never_validates:
  assumes "\<forall>(n, r) \<in> set rules. Time r \<noteq> None"
  shows "build_rules [] rules =
     Inr (map (\<lambda>(n, r). \<lparr>name = n, check = make_checker r, effect = make_effector r,
                          cost = the (Time r)\<rparr>) rules)
   \<and> (\<forall>r state k a pre post.
         Consumes r = Some (pre @ (k, a) # post) \<and>
         (\<forall>(n, b) \<in> set pre. has_at_least state n b) \<and> k \<notin> fst ` set state \<longrightarrow>
         make_checker r state = Inl KeyError)
   \<and> (\<forall>r state k rpre rpost.
         (\<forall>(n, b) \<in> set (clause (Consumes r)). has_at_least state n b) \<and>
         Requires r = Some (rpre @ k # rpost) \<and>
         (\<forall>n \<in> set rpre. has_at_least state n 1) \<and> k \<notin> fst ` set state \<longrightarrow>
         make_checker r state = Inl KeyError)
   \<and> (\<forall>r state k a q pre post.
         Consumes r = Some (pre @ (k, a) # post) \<and>
         (\<forall>(n, b) \<in> set pre. has_at_least state n b) \<and> map_of state k = Some q \<and> q < a \<longrightarrow>
         make_checker r state = Inr False)
   \<and> (\<forall>r ps state. make_checker (r\<lparr>Produces := ps\<rparr>) state = make_checker r state)
   \<and> (\<forall>r h a k.
         a < length h \<and>
         k \<in> fst ` set (clause (Consumes r)) \<union> fst ` set (clause (Produces r)) \<and>
         k \<notin> fst ` set (h ! a) \<longrightarrow>
         make_effector r h a = Inl KeyError)"
proof (intro conjI allI impI)
  show "build_rules [] rules =
     Inr (map (\<lambda>(n, r). \<lparr>name = n, check = make_checker r, effect = make_effector r,
                          cost = the (Time r)\<rparr>) rules)"
    using build_rules_acc[OF assms, of "[]"] by simp
next
  fix r :: rule and state :: state and k a pre post
  assume "Consumes r = Some (pre @ (k, a) # post) \<and>
         (\<forall>(n, b) \<in> set pre. has_at_least state n b) \<and> k \<notin> fst ` set state"
  then show "make_checker r state = Inl KeyError"
    using make_checker_consumes_missing by blast
next
  fix r :: rule and state :: state and k rpre rpost
  assume "(\<forall>(n, b) \<in> set (clause (Consumes r)). has_at_least state n b) \<and>
         Requires r = Some (rpre @ k # rpost) \<and>
         (\<forall>n \<in> set rpre. has_at_least state n 1) \<and> k \<notin> fst ` set state"
  then show "make_checker r state = Inl KeyError"
    using make_checker_requires_missing by blast
next
  fix r :: rule and state :: state and k a q pre post
  assume "Consumes r = Some (pre @ (k, a) # post) \<and>
         (\<forall>(n, b) \<in> set pre. has_at_least state n b) \<and> map_of state k = Some q \<and> q < a"
  then show "make_checker r state = Inr False"
    using make_checker_consumes_unmet by blast
next
  fix r :: rule and ps state
  show "make_checker (r\<lparr>Produces := ps\<rparr>) state = make_checker r state"
    by (simp add: make_checker_def split: sum.splits bool.splits)
next
  fix r :: rule and h :: store and a k
  assume "a < length h \<and>
         k \<in> fst ` set (clause (Consumes r)) \<union> fst ` set (clause (Produces r)) \<and>
         k \<notin> fst ` set (h ! a)"
  then show "make_effector r h a = Inl KeyError"
    using make_effector_missing by blast
qed

theorem build_rules_never_validates_witness:
  "build_rules [] [(''smelt'', \<lparr>Consumes = Some [(''ghost'', 1)], Requires = None,
        Produces = Some [(''ingot'', 1)], Time = Some (- 3)\<rparr>)] =
     Inr [\<lparr>name = ''smelt'',
           check = make_checker \<lparr>Consumes = Some [(''ghost'', 1)], Requires = None,
             Produces = Some [(''ingot'', 1)], Time = Some (- 3)\<rparr>,
           effect = make_effector \<lparr>Consumes = Some [(''ghost'', 1)], Requires = None,
             Produces = Some [(''ingot'', 1)], Time = Some (- 3)\<rparr>,
           cost = - 3\<rparr>]
   \<and> make_checker \<lparr>Consumes = Some [(''ore'', 1), (''ghost'', 1)], Requires = None,
        Produces = Some [(''ingot'', 1)], Time = Some 1\<rparr> [(''ore'', 2), (''ingot'', 0)] =
       Inl KeyError
   \<and> make_checker \<lparr>Consumes = Some [(''ore'', 1)], Requires = Some [''ghost''],
        Produces = Some [(''ingot'', 1)], Time = Some 1\<rparr> [(''ore'', 2), (''ingot'', 0)] =
       Inl KeyError
   \<and> make_checker \<lparr>Consumes = Some [(''ore'', 1), (''ghost'', 1)], Requires = None,
        Produces = Some [(''ingot'', 1)], Time = Some 1\<rparr> [(''ore'', 0), (''ingot'', 0)] =
       Inr False
   \<and> make_effector \<lparr>Consumes = Some [(''ore'', 1)], Requires = None,
        Produces = Some [(''ghost'', 1)], Time = Some 1\<rparr> [[(''ore'', 2), (''ingot'', 0)]] 0 =
       Inl KeyError"
proof -
  let ?s = "[(''ore'', 2), (''ingot'', 0)] :: state"
  let ?r1 = "\<lparr>Consumes = Some [(''ghost'', 1)], Requires = None,
        Produces = Some [(''ingot'', 1)], Time = Some (- 3)\<rparr>"
  let ?r2 = "\<lparr>Consumes = Some [(''ore'', 1), (''ghost'', 1)], Requires = None,
        Produces = Some [(''ingot'', 1)], Time = Some 1\<rparr>"
  let ?r3 = "\<lparr>Consumes = Some [(''ore'', 1)], Requires = Some [''ghost''],
        Produces = Some [(''ingot'', 1)], Time = Some 1\<rparr>"
  let ?r4 = "\<lparr>Consumes = Some [(''ore'', 1)], Requires = None,
        Produces = Some [(''ghost'', 1)], Time = Some 1\<rparr>"
  note t = build_rules_never_validates [of "[(''smelt'', ?r1)]"]
  have pre: "\<forall>(n, r) \<in> set [(''smelt'', ?r1)]. Time r \<noteq> None" by simp
  have a: "build_rules [] [(''smelt'', ?r1)] =
      Inr [\<lparr>name = ''smelt'', check = make_checker ?r1, effect = make_effector ?r1, cost = - 3\<rparr>]"
    using t[OF pre, THEN conjunct1] by simp
  have b: "make_checker ?r2 ?s = Inl KeyError"
    using t[OF pre, THEN conjunct2, THEN conjunct1, rule_format,
        of ?r2 "[(''ore'', 1)]" "''ghost''" 1 "[]" ?s]
    by (simp add: has_at_least_def)
  have c: "make_checker ?r3 ?s = Inl KeyError"
    using t[OF pre, THEN conjunct2, THEN conjunct2, THEN conjunct1, rule_format,
        of ?r3 ?s "[]" "''ghost''" "[]"]
    by (simp add: has_at_least_def clause_def)
  have d: "make_checker ?r2 [(''ore'', 0), (''ingot'', 0)] = Inr False"
    using t[OF pre, THEN conjunct2, THEN conjunct2, THEN conjunct2, THEN conjunct1, rule_format,
        of ?r2 "[]" "''ore''" 1 "[(''ghost'', 1)]" "[(''ore'', 0), (''ingot'', 0)]" 0]
    by simp
  have e: "make_effector ?r4 [?s] 0 = Inl KeyError"
    using t[OF pre, THEN conjunct2, THEN conjunct2, THEN conjunct2, THEN conjunct2,
        THEN conjunct2, rule_format, of 0 "[?s]" "''ghost''" ?r4]
    by (simp add: clause_def)
  from a b c d e show ?thesis by blast
qed

text \<open>
  The claim as stated fails: a rule that consumes an item the domain does not declare,
  at a negative cost, is compiled without an error; the cost stays negative, and the
  unknown item raises \<^verbatim>\<open>KeyError\<close> when \<^verbatim>\<open>check\<close> runs on the initial state.
\<close>

theorem build_rules_never_validates_counterexample:
  "\<not> isl (build_rules [] [(''smelt'', \<lparr>Consumes = Some [(''ghost'', 1)], Requires = None,
        Produces = Some [(''ingot'', 1)], Time = Some (- 3)\<rparr>)])
   \<and> map cost (projr (build_rules [] [(''smelt'', \<lparr>Consumes = Some [(''ghost'', 1)],
        Requires = None, Produces = Some [(''ingot'', 1)], Time = Some (- 3)\<rparr>)])) = [- 3]
   \<and> map (\<lambda>r. check r (initial_state [''ore'', ''ingot''] [(''ore'', 2)]))
        (projr (build_rules [] [(''smelt'', \<lparr>Consumes = Some [(''ghost'', 1)],
        Requires = None, Produces = Some [(''ingot'', 1)], Time = Some (- 3)\<rparr>)])) =
       [Inl KeyError]"
  by (simp add: make_checker_def getitem_def initial_state_def State_init_def State_update_def)

section \<open>The search\<close>

subsection \<open>Fuel\<close>

text \<open>
  A loop that ends within some fuel ends in the same way with any more fuel: an outcome
  other than \<open>OutOfFuel\<close> is what the source does.
\<close>

lemma walk_back_fuel:
  "walk_back n cfd state cf rl \<noteq> OutOfFuel \<Longrightarrow>
   walk_back (n + k) cfd state cf rl = walk_back n cfd state cf rl"
proof (induction n arbitrary: cf rl)
  case 0
  then show ?case by simp
next
  case (Suc n)
  show ?case
  proof (cases "State_eq cf state")
    case True
    then show ?thesis by simp
  next
    case False
    show ?thesis
    proof (cases "cfd cf")
      case None
      with False show ?thesis by simp
    next
      case (Some v)
      show ?thesis
      proof (cases v)
        case None
        with Some False show ?thesis by simp
      next
        case (Some pn)
        obtain prev nm where pn: "pn = (prev, nm)" by (cases pn)
        from Suc.prems False \<open>cfd cf = Some v\<close> Some pn
        have "walk_back n cfd state prev (rl @ [(prev, nm)]) \<noteq> OutOfFuel" by simp
        from Suc.IH[OF this] False \<open>cfd cf = Some v\<close> Some pn show ?thesis by simp
      qed
    qed
  qed
qed

lemma explore_fuel:
  "explore n succs state is_goal estimate t st \<noteq> OutOfFuel \<Longrightarrow>
   explore (n + k) succs state is_goal estimate t st = explore n succs state is_goal estimate t st"
proof (induction n arbitrary: t st)
  case 0
  then show ?case by simp
next
  case (Suc n)
  show ?case
  proof (cases "heappop (frontier st)")
    case None
    then show ?thesis by simp
  next
    case (Some x)
    obtain priority current rest where x: "x = ((priority, current), rest)"
      by (cases x) auto
    show ?thesis
    proof (cases "is_goal current")
      case (Inl e)
      with Some x show ?thesis by simp
    next
      case (Inr b)
      show ?thesis
      proof (cases b)
        case True
        show ?thesis
        proof (cases "cost_so_far st current")
          case None
          with Some x Inr True show ?thesis by simp
        next
          case (Some c)
          let ?w = "walk_back n (came_from_dict st) state current [(current, ''complete'')]"
          from Suc.prems \<open>heappop (frontier st) = Some x\<close> x Inr True Some
          have "?w \<noteq> OutOfFuel" by (auto split: outcome.splits)
          then have "walk_back (n + k) (came_from_dict st) state current [(current, ''complete'')] = ?w"
            by (rule walk_back_fuel)
          with \<open>heappop (frontier st) = Some x\<close> x Inr True Some show ?thesis by simp
        qed
      next
        case False
        show ?thesis
        proof (cases "expand estimate current (succs current) (st\<lparr>frontier := rest\<rparr>)")
          case (Inl e)
          with Some x Inr False show ?thesis by simp
        next
          case (Inr st')
          from Suc.prems Some x \<open>is_goal current = Inr b\<close> False Inr
          have "explore n succs state is_goal estimate (Suc t) st' \<noteq> OutOfFuel" by simp
          from Suc.IH[OF this] Some x \<open>is_goal current = Inr b\<close> False Inr
          show ?thesis by simp
        qed
      qed
    qed
  qed
qed

lemma restart_loop_fuel:
  "restart_loop n clock succs state is_goal limit estimate start_time t \<noteq> OutOfFuel \<Longrightarrow>
   restart_loop (n + k) clock succs state is_goal limit estimate start_time t =
   restart_loop n clock succs state is_goal limit estimate start_time t"
proof (induction n arbitrary: t)
  case 0
  then show ?case by simp
next
  case (Suc n)
  let ?st0 = "\<lparr>frontier = heappush [] (Num 0, state), came_from_dict = [state \<mapsto> None],
               cost_so_far = [state \<mapsto> 0]\<rparr>"
  let ?e = "explore n succs state is_goal estimate (Suc t) ?st0"
  show ?case
  proof (cases "clock t - start_time < limit")
    case False
    then show ?thesis by simp
  next
    case True
    with Suc.prems have e: "?e \<noteq> OutOfFuel" by (auto split: outcome.splits)
    then have e': "explore (n + k) succs state is_goal estimate (Suc t) ?st0 = ?e"
      by (rule explore_fuel)
    show ?thesis
    proof (cases ?e)
      case (Returns r)
      obtain p t' where r: "r = (p, t')" by (cases r)
      show ?thesis
      proof (cases p)
        case None
        with Suc.prems True Returns r
        have "restart_loop n clock succs state is_goal limit estimate start_time t' \<noteq> OutOfFuel"
          by simp
        from Suc.IH[OF this] True Returns r None e' show ?thesis by simp
      next
        case (Some pl)
        with True Returns r e' show ?thesis by simp
      qed
    next
      case (Raises x)
      with True e' show ?thesis by simp
    next
      case OutOfFuel
      with e show ?thesis by simp
    qed
  qed
qed

lemma search_fuel:
  "search n clock succs state is_goal limit estimate \<noteq> OutOfFuel \<Longrightarrow>
   search (n + k) clock succs state is_goal limit estimate =
   search n clock succs state is_goal limit estimate"
  unfolding search_def by (rule restart_loop_fuel)


subsection \<open>One expansion\<close>

lemma relax_step:
  assumes "cost_so_far st current = Some c" and "estimate current = Inr hv"
  shows "relax estimate current (action, next_state, action_cost) st =
     Inr (if cost_so_far st next_state = None \<or>
             (\<exists>old. cost_so_far st next_state = Some old \<and> c + action_cost < old)
          then st\<lparr>cost_so_far := (cost_so_far st)(next_state \<mapsto> c + action_cost),
                  frontier := heappush (frontier st) (pynum_add (c + action_cost) hv, next_state),
                  came_from_dict := (came_from_dict st)(next_state \<mapsto> Some (current, action))\<rparr>
          else st)"
  using assms by (cases "cost_so_far st next_state") (simp_all add: relax_def Let_def add.commute)


text \<open>
  Claim C1. In the expansion of the popped state \<open>current\<close>, whose recorded cost is \<open>c\<close>
  and at which the heuristic returns \<open>hv\<close>, the loop takes the successors in the order
  in which they are yielded. For the successor \<open>(action, next_state, action_cost)\<close> the
  new cost is \<open>c + action_cost\<close>. Exactly when \<open>next_state\<close> has no recorded cost or the
  new cost is less than the recorded one, the new cost is recorded for \<open>next_state\<close>,
  \<open>(current, action)\<close> is recorded as its predecessor, and \<open>next_state\<close> is pushed at
  priority new cost plus \<open>hv\<close>, the heuristic of the current state; otherwise nothing
  changes. The loop then goes on with the next successor.
\<close>

theorem expand_relaxes_each_successor:
  assumes "cost_so_far st current = Some c" and "estimate current = Inr hv"
  shows "expand estimate current (Yield (action, next_state, action_cost) g) st =
     expand estimate current g
       (if cost_so_far st next_state = None \<or>
           (\<exists>old. cost_so_far st next_state = Some old \<and> c + action_cost < old)
        then st\<lparr>cost_so_far := (cost_so_far st)(next_state \<mapsto> c + action_cost),
                frontier := heappush (frontier st) (pynum_add (c + action_cost) hv, next_state),
                came_from_dict := (came_from_dict st)(next_state \<mapsto> Some (current, action))\<rparr>
        else st)"
  by (simp only: expand.simps relax_step[of st current c estimate hv, OF assms] sum.case)

theorem expand_relaxes_each_successor_witness:
  "expand (\<lambda>s. Inr (Num 15)) [(''wood'', 5), (''plank'', 0)]
     (Yield (''chop'', [(''wood'', 4), (''plank'', 4)], 1) Stop)
     \<lparr>frontier = [], came_from_dict = [[(''wood'', 5), (''plank'', 0)] \<mapsto> None],
      cost_so_far = [[(''wood'', 5), (''plank'', 0)] \<mapsto> 0]\<rparr> =
   Inr \<lparr>frontier = [(Num 16, [(''wood'', 4), (''plank'', 4)])],
        came_from_dict = [[(''wood'', 5), (''plank'', 0)] \<mapsto> None,
          [(''wood'', 4), (''plank'', 4)] \<mapsto> Some ([(''wood'', 5), (''plank'', 0)], ''chop'')],
        cost_so_far = [[(''wood'', 5), (''plank'', 0)] \<mapsto> 0,
          [(''wood'', 4), (''plank'', 4)] \<mapsto> 1]\<rparr>
   \<and> expand (\<lambda>s. Inr (Num 15)) [(''wood'', 5), (''plank'', 0)]
     (Yield (''saw'', [(''wood'', 4), (''plank'', 4)], 1) Stop)
     \<lparr>frontier = [], came_from_dict = [[(''wood'', 5), (''plank'', 0)] \<mapsto> None],
      cost_so_far = [[(''wood'', 5), (''plank'', 0)] \<mapsto> 0,
        [(''wood'', 4), (''plank'', 4)] \<mapsto> 1]\<rparr> =
   Inr \<lparr>frontier = [], came_from_dict = [[(''wood'', 5), (''plank'', 0)] \<mapsto> None],
      cost_so_far = [[(''wood'', 5), (''plank'', 0)] \<mapsto> 0,
        [(''wood'', 4), (''plank'', 4)] \<mapsto> 1]\<rparr>"
  using
    expand_relaxes_each_successor [of
      "\<lparr>frontier = [], came_from_dict = [[(''wood'', 5), (''plank'', 0)] \<mapsto> None],
        cost_so_far = [[(''wood'', 5), (''plank'', 0)] \<mapsto> 0]\<rparr>"
      "[(''wood'', 5), (''plank'', 0)]" 0 "\<lambda>s. Inr (Num 15)" "Num 15"
      "''chop''" "[(''wood'', 4), (''plank'', 4)]" 1 Stop]
    expand_relaxes_each_successor [of
      "\<lparr>frontier = [], came_from_dict = [[(''wood'', 5), (''plank'', 0)] \<mapsto> None],
        cost_so_far = [[(''wood'', 5), (''plank'', 0)] \<mapsto> 0,
          [(''wood'', 4), (''plank'', 4)] \<mapsto> 1]\<rparr>"
      "[(''wood'', 5), (''plank'', 0)]" 0 "\<lambda>s. Inr (Num 15)" "Num 15"
      "''saw''" "[(''wood'', 4), (''plank'', 4)]" 1 Stop]
  by (simp add: heappush_def)

subsection \<open>The plan\<close>

lemma walk_back_ends:
  "walk_back n cfd state cf rl = Returns out \<Longrightarrow> rl \<noteq> [] \<Longrightarrow> fst (last rl) = cf \<Longrightarrow>
   out \<noteq> [] \<and> State_eq (fst (last out)) state \<and> hd out = hd rl"
proof (induction n arbitrary: cf rl)
  case 0
  then show ?case by simp
next
  case (Suc n)
  show ?case
  proof (cases "State_eq cf state")
    case True
    with Suc.prems show ?thesis by simp
  next
    case False
    with Suc.prems(1) obtain prev nm where
      step: "cfd cf = Some (Some (prev, nm))"
      and rec: "walk_back n cfd state prev (rl @ [(prev, nm)]) = Returns out"
      by (auto split: option.splits)
    from Suc.IH[OF rec] Suc.prems(2) show ?thesis by simp
  qed
qed

lemma explore_plan:
  "explore n succs state is_goal estimate t st = Returns (Some plan, t') \<Longrightarrow>
   plan \<noteq> [] \<and> State_eq (fst (hd plan)) state \<and> is_goal (fst (last plan)) = Inr True \<and>
   snd (last plan) = ''complete''"
proof (induction n arbitrary: t st)
  case 0
  then show ?case by simp
next
  case (Suc n)
  from Suc.prems obtain priority current rest where
    pop: "heappop (frontier st) = Some ((priority, current), rest)"
    by (auto split: option.splits)
  show ?case
  proof (cases "is_goal current")
    case (Inl e)
    with Suc.prems pop show ?thesis by simp
  next
    case (Inr b)
    show ?thesis
    proof (cases b)
      case True
      with Suc.prems pop Inr obtain ret_list where
        w: "walk_back n (came_from_dict st) state current [(current, ''complete'')] = Returns ret_list"
        and p: "plan = rev ret_list"
        by (auto split: option.splits outcome.splits)
      from walk_back_ends[OF w] have "ret_list \<noteq> []" "State_eq (fst (last ret_list)) state"
        "hd ret_list = (current, ''complete'')" by simp_all
      with p Inr True show ?thesis by (simp add: hd_rev last_rev)
    next
      case False
      with Suc.prems pop Inr obtain st' where
        "explore n succs state is_goal estimate (Suc t) st' = Returns (Some plan, t')"
        by (auto split: sum.splits)
      then show ?thesis by (rule Suc.IH)
    qed
  qed
qed

lemma restart_loop_plan:
  "restart_loop n clock succs state is_goal limit estimate start_time t = Returns (Some plan) \<Longrightarrow>
   plan \<noteq> [] \<and> State_eq (fst (hd plan)) state \<and> is_goal (fst (last plan)) = Inr True \<and>
   snd (last plan) = ''complete''"
proof (induction n arbitrary: t)
  case 0
  then show ?case by simp
next
  case (Suc n)
  let ?e = "explore n succs state is_goal estimate (Suc t)
              \<lparr>frontier = heappush [] (Num 0, state), came_from_dict = [state \<mapsto> None],
               cost_so_far = [state \<mapsto> 0]\<rparr>"
  from Suc.prems have live: "clock t - start_time < limit" by (auto split: if_splits)
  show ?case
  proof (cases ?e)
    case (Returns r)
    obtain p t' where r: "r = (p, t')" by (cases r)
    show ?thesis
    proof (cases p)
      case None
      with Suc.prems live Returns r
      have "restart_loop n clock succs state is_goal limit estimate start_time t' = Returns (Some plan)"
        by simp
      then show ?thesis by (rule Suc.IH)
    next
      case (Some pl)
      with Suc.prems live Returns r have "pl = plan" by simp
      with Returns r Some show ?thesis using explore_plan by blast
    qed
  next
    case (Raises e)
    with Suc.prems live show ?thesis by simp
  next
    case OutOfFuel
    with Suc.prems live show ?thesis by simp
  qed
qed

lemma restart_loop_None:
  "restart_loop n clock succs state is_goal limit estimate start_time t = Returns None \<Longrightarrow>
   \<exists>t'. limit \<le> clock t' - start_time"
proof (induction n arbitrary: t)
  case 0
  then show ?case by simp
next
  case (Suc n)
  show ?case
  proof (cases "clock t - start_time < limit")
    case False
    then show ?thesis by (auto intro: exI[of _ t])
  next
    case True
    with Suc.prems obtain t' where
      "restart_loop n clock succs state is_goal limit estimate start_time t' = Returns None"
      by (auto split: outcome.splits option.splits prod.splits)
    then show ?thesis by (rule Suc.IH)
  qed
qed


text \<open>
  Claim C2. The run of the search on the small crafting domain, from five \<^verbatim>\<open>wood\<close> to
  the goal of one \<^verbatim>\<open>bench\<close>, with the heuristic of the source. The plan leads from the
  initial state to the goal state, but each pair holds a state with the rule that is
  applied to it next: the first pair holds \<^verbatim>\<open>chop\<close> and no sentinel, the state reached
  by \<^verbatim>\<open>chop\<close> is paired with \<^verbatim>\<open>craft bench\<close>, and the sentinel \<^verbatim>\<open>complete\<close> stands in the
  last pair, with the goal state.
\<close>

theorem search_plan_pairs_state_with_next_action:
  "search 10 (\<lambda>t. 0) (graph crafting_recipes)
     (initial_state crafting_items [(''wood'', 5)]) (make_goal_checker [(''bench'', 1)]) 5
     (heuristic crafting_recipes) =
   Returns (Some
     [([(''wood'', 5), (''plank'', 0), (''bench'', 0)], ''chop''),
      ([(''wood'', 4), (''plank'', 4), (''bench'', 0)], ''craft bench''),
      ([(''wood'', 4), (''plank'', 0), (''bench'', 1)], ''complete'')])"
  by code_simp

subsection \<open>The deadline\<close>

lemma plank_run_late:
  "search 10 late_clock (graph crafting_recipes)
     (initial_state crafting_items [(''wood'', 5)]) (make_goal_checker [(''plank'', 4)]) 5
     (heuristic crafting_recipes) =
   Returns (Some
     [([(''wood'', 5), (''plank'', 0), (''bench'', 0)], ''chop''),
      ([(''wood'', 4), (''plank'', 4), (''bench'', 0)], ''complete'')])"
  by code_simp

lemma unreachable_explore:
  "explore 4 (graph crafting_recipes) (initial_state crafting_items [(''wood'', 1)])
     (make_goal_checker [(''wood'', 2)]) (heuristic crafting_recipes) 0
     \<lparr>frontier = heappush [] (Num 0, initial_state crafting_items [(''wood'', 1)]),
      came_from_dict = [initial_state crafting_items [(''wood'', 1)] \<mapsto> None],
      cost_so_far = [initial_state crafting_items [(''wood'', 1)] \<mapsto> 0]\<rparr> =
   Returns (None, 3)"
  by code_simp

lemma explore_shift:
  "explore n succs state is_goal estimate (t + k) st =
     (case explore n succs state is_goal estimate t st of
        Returns (p, t') \<Rightarrow> Returns (p, t' + k)
      | Raises e \<Rightarrow> Raises e
      | OutOfFuel \<Rightarrow> OutOfFuel)"
proof (induction n arbitrary: t st)
  case 0
  then show ?case by simp
next
  case (Suc n)
  have "explore n succs state is_goal estimate (Suc (t + k)) st' =
     (case explore n succs state is_goal estimate (Suc t) st' of
        Returns (p, t') \<Rightarrow> Returns (p, t' + k)
      | Raises e \<Rightarrow> Raises e
      | OutOfFuel \<Rightarrow> OutOfFuel)" for st'
    using Suc.IH[of "Suc t" st'] by simp
  then show ?case
    by (simp split: option.splits sum.splits bool.splits outcome.splits prod.splits)
qed

lemma restart_loop_ends:
  assumes e: "explore n succs state is_goal estimate 0
                \<lparr>frontier = heappush [] (Num 0, state), came_from_dict = [state \<mapsto> None],
                 cost_so_far = [state \<mapsto> 0]\<rparr> = Returns (None, d)"
    and late: "\<forall>t\<ge>T. limit \<le> clock t - start_time"
  shows "restart_loop (n + Suc (T - t)) clock succs state is_goal limit estimate start_time t =
           Returns None"
proof (induction "T - t" arbitrary: t rule: less_induct)
  case less
  let ?st0 = "\<lparr>frontier = heappush [] (Num 0, state), came_from_dict = [state \<mapsto> None],
                 cost_so_far = [state \<mapsto> 0]\<rparr>"
  show ?case
  proof (cases "clock t - start_time < limit")
    case False
    then show ?thesis by simp
  next
    case True
    with late have tT: "t < T" by (meson not_le_imp_less not_less)
    let ?t' = "d + Suc t"
    have "explore n succs state is_goal estimate (0 + Suc t) ?st0 = Returns (None, ?t')"
      unfolding explore_shift[of n succs state is_goal estimate 0 "Suc t" ?st0] e by simp
    then have e1: "explore n succs state is_goal estimate (Suc t) ?st0 = Returns (None, ?t')"
      by simp
    then have "explore (n + (T - t)) succs state is_goal estimate (Suc t) ?st0 =
        Returns (None, ?t')"
      using explore_fuel[of n succs state is_goal estimate "Suc t" ?st0 "T - t"] by simp
    moreover have "restart_loop (n + (T - t)) clock succs state is_goal limit estimate
        start_time ?t' = Returns None"
    proof -
      have less': "T - ?t' < T - t" using tT by simp
      from less.hyps[OF less']
      have r: "restart_loop (n + Suc (T - ?t')) clock succs state is_goal limit estimate
          start_time ?t' = Returns None" .
      obtain k where k: "n + (T - t) = n + Suc (T - ?t') + k"
        using tT by (intro that[of "(T - t) - Suc (T - ?t')"]) simp
      from restart_loop_fuel[of "n + Suc (T - ?t')" clock succs state is_goal limit estimate
          start_time ?t' k] r
      show ?thesis unfolding k by simp
    qed
    ultimately show ?thesis using True by simp
  qed
qed

lemma explore_at:
  "explore n succs state is_goal estimate t st =
     (case explore n succs state is_goal estimate 0 st of
        Returns (p, d) \<Rightarrow> Returns (p, d + t)
      | Raises e \<Rightarrow> Raises e
      | OutOfFuel \<Rightarrow> OutOfFuel)"
  using explore_shift[of n succs state is_goal estimate 0 t st] by simp

lemma explore_more_fuel:
  "explore m succs state is_goal estimate t st = Returns r \<Longrightarrow> m \<le> n \<Longrightarrow>
   explore n succs state is_goal estimate t st = Returns r"
  using explore_fuel[of m succs state is_goal estimate t st "n - m"] by simp

lemma restart_loop_None_iff:
  "restart_loop fuel clock succs state is_goal limit estimate start_time t = Returns None \<longleftrightarrow>
   (\<exists>k<fuel. \<exists>d. limit \<le> clock (t + k * Suc d) - start_time \<and>
      (\<forall>j<k. clock (t + j * Suc d) - start_time < limit) \<and>
      (0 < k \<longrightarrow>
         explore (fuel - k) succs state is_goal estimate 0
           \<lparr>frontier = heappush [] (Num 0, state), came_from_dict = [state \<mapsto> None],
            cost_so_far = [state \<mapsto> 0]\<rparr> = Returns (None, d)))"
  (is "?L fuel t \<longleftrightarrow> ?R fuel t")
proof (induction fuel arbitrary: t)
  case 0
  then show ?case by simp
next
  case (Suc f)
  let ?st0 = "\<lparr>frontier = heappush [] (Num 0, state), came_from_dict = [state \<mapsto> None],
            cost_so_far = [state \<mapsto> 0]\<rparr>"
  let ?ex = "\<lambda>n t. explore n succs state is_goal estimate t ?st0"
  show ?case
  proof (cases "clock t - start_time < limit")
    case False
    then have "?L (Suc f) t" by simp
    moreover have "?R (Suc f) t"
      using False by (intro exI[of _ 0]) simp
    ultimately show ?thesis by simp
  next
    case True
    show ?thesis
    proof
      assume L: "?L (Suc f) t"
      with True obtain t' where e: "?ex f (Suc t) = Returns (None, t')"
        and r: "?L f t'"
        by (auto split: outcome.splits option.splits prod.splits)
      from e obtain d0 where e0: "?ex f 0 = Returns (None, d0)" and t': "t' = d0 + Suc t"
        unfolding explore_at[of f succs state is_goal estimate "Suc t" ?st0]
        by (auto split: outcome.splits prod.splits)
      from r Suc.IH[of t'] obtain k d where k: "k < f"
        and late: "limit \<le> clock (t' + k * Suc d) - start_time"
        and early: "\<forall>j<k. clock (t' + j * Suc d) - start_time < limit"
        and ex: "0 < k \<longrightarrow> ?ex (f - k) 0 = Returns (None, d)"
        by blast
      have d: "0 < k \<longrightarrow> d = d0"
      proof
        assume "0 < k"
        with ex have "?ex (f - k) 0 = Returns (None, d)" by simp
        then have "?ex f 0 = Returns (None, d)" by (rule explore_more_fuel) simp
        with e0 show "d = d0" by simp
      qed
      define d' where "d' = (if 0 < k then d else d0)"
      have dd: "d' = d0" using d by (simp add: d'_def)
      have shift: "t' + j * Suc d = t + Suc j * Suc d'" if "j \<le> k" "0 < k" for j
        using that d t' dd by simp
      have late': "limit \<le> clock (t + Suc k * Suc d') - start_time"
      proof (cases "0 < k")
        case True
        from late show ?thesis unfolding shift[OF le_refl True] .
      next
        case False
        with late t' dd show ?thesis by (simp add: add.commute)
      qed
      have early': "\<forall>j<Suc k. clock (t + j * Suc d') - start_time < limit"
      proof (intro allI impI)
        fix j assume j: "j < Suc k"
        show "clock (t + j * Suc d') - start_time < limit"
        proof (cases j)
          case 0
          with True show ?thesis by simp
        next
          case (Suc i)
          with j have i: "i < k" by simp
          then have eq: "t' + i * Suc d = t + Suc i * Suc d'" by (intro shift) simp_all
          from early i have "clock (t' + i * Suc d) - start_time < limit" by blast
          then show ?thesis unfolding eq Suc .
        qed
      qed
      have ex': "?ex (Suc f - Suc k) 0 = Returns (None, d')"
      proof (cases "0 < k")
        case True
        with ex d dd show ?thesis by simp
      next
        case False
        with e0 dd show ?thesis by simp
      qed
      show "?R (Suc f) t"
      proof (rule exI[of _ "Suc k"], rule conjI)
        show "Suc k < Suc f" using k by simp
        from late' early' ex'
        show "\<exists>d. limit \<le> clock (t + Suc k * Suc d) - start_time \<and>
          (\<forall>j<Suc k. clock (t + j * Suc d) - start_time < limit) \<and>
          (0 < Suc k \<longrightarrow> ?ex (Suc f - Suc k) 0 = Returns (None, d))"
          by blast
      qed
    next
      assume "?R (Suc f) t"
      then obtain k d where k: "k < Suc f"
        and late: "limit \<le> clock (t + k * Suc d) - start_time"
        and early: "\<forall>j<k. clock (t + j * Suc d) - start_time < limit"
        and ex: "0 < k \<longrightarrow> ?ex (Suc f - k) 0 = Returns (None, d)"
        by blast
      from late True have "k \<noteq> 0" by (cases k) auto
      then obtain k' where k': "k = Suc k'" by (cases k) auto
      with ex have "?ex (f - k') 0 = Returns (None, d)" by simp
      then have e0: "?ex f 0 = Returns (None, d)" by (rule explore_more_fuel) simp
      then have e: "?ex f (Suc t) = Returns (None, d + Suc t)"
        unfolding explore_at[of f succs state is_goal estimate "Suc t" ?st0] by simp
      have eq: "d + Suc t + j * Suc d = t + Suc j * Suc d" for j
        by simp
      have i1: "limit \<le> clock (d + Suc t + k' * Suc d) - start_time"
        using late unfolding k' eq .
      have i2: "\<forall>j<k'. clock (d + Suc t + j * Suc d) - start_time < limit"
      proof (intro allI impI)
        fix j assume "j < k'"
        then have "Suc j < k" using k' by simp
        with early have "clock (t + Suc j * Suc d) - start_time < limit" by blast
        then show "clock (d + Suc t + j * Suc d) - start_time < limit"
          unfolding eq .
      qed
      have i3: "0 < k' \<longrightarrow> ?ex (f - k') 0 = Returns (None, d)"
        using \<open>?ex (f - k') 0 = Returns (None, d)\<close> by simp
      have "?R f (d + Suc t)"
      proof (rule exI[of _ k'], rule conjI)
        show "k' < f" using k k' by simp
        from i1 i2 i3
        show "\<exists>da. limit \<le> clock (d + Suc t + k' * Suc da) - start_time \<and>
          (\<forall>j<k'. clock (d + Suc t + j * Suc da) - start_time < limit) \<and>
          (0 < k' \<longrightarrow> ?ex (f - k') 0 = Returns (None, da))"
          by blast
      qed
      with Suc.IH[of "d + Suc t"] have "?L f (d + Suc t)" by simp
      with True e show "?L (Suc f) t" by simp
    qed
  qed
qed

lemma no_plan_after_exhaustion:
  assumes "explore f succs state is_goal estimate 0
             \<lparr>frontier = heappush [] (Num 0, state), came_from_dict = [state \<mapsto> None],
              cost_so_far = [state \<mapsto> 0]\<rparr> = Returns (None, d)"
  shows "f' \<le> f \<Longrightarrow>
    restart_loop f' clock succs state is_goal limit estimate start_time t \<noteq> Returns (Some plan)"
proof (induction f' arbitrary: t)
  case 0
  then show ?case by simp
next
  case (Suc g)
  let ?st0 = "\<lparr>frontier = heappush [] (Num 0, state), came_from_dict = [state \<mapsto> None],
            cost_so_far = [state \<mapsto> 0]\<rparr>"
  let ?e = "explore g succs state is_goal estimate 0 ?st0"
  have "?e = OutOfFuel \<or> ?e = Returns (None, d)"
  proof (cases "?e = OutOfFuel")
    case False
    from explore_fuel[OF False, of "f - g"] Suc.prems assms show ?thesis by simp
  qed simp
  then have e: "explore g succs state is_goal estimate (Suc t) ?st0 = OutOfFuel \<or>
      explore g succs state is_goal estimate (Suc t) ?st0 = Returns (None, d + Suc t)"
    unfolding explore_at[of g succs state is_goal estimate "Suc t" ?st0] by auto
  from Suc.prems have "g \<le> f" by simp
  from Suc.IH[OF this] e show ?case by auto
qed

lemma restart_loop_plan_iff:
  "restart_loop fuel clock succs state is_goal limit estimate start_time t = Returns (Some plan) \<longleftrightarrow>
   (\<exists>f t'. fuel = Suc f \<and> clock t - start_time < limit \<and>
      explore f succs state is_goal estimate (Suc t)
        \<lparr>frontier = heappush [] (Num 0, state), came_from_dict = [state \<mapsto> None],
         cost_so_far = [state \<mapsto> 0]\<rparr> = Returns (Some plan, t'))"
proof (cases fuel)
  case 0
  then show ?thesis by simp
next
  case (Suc f)
  let ?st0 = "\<lparr>frontier = heappush [] (Num 0, state), came_from_dict = [state \<mapsto> None],
            cost_so_far = [state \<mapsto> 0]\<rparr>"
  show ?thesis
  proof (cases "clock t - start_time < limit")
    case False
    with Suc show ?thesis by simp
  next
    case True
    show ?thesis
    proof (cases "explore f succs state is_goal estimate (Suc t) ?st0")
      case (Returns r)
      obtain p t' where r: "r = (p, t')" by (cases r)
      show ?thesis
      proof (cases p)
        case None
        from Returns r None obtain d where
          "explore f succs state is_goal estimate 0 ?st0 = Returns (None, d)"
          unfolding explore_at[of f succs state is_goal estimate "Suc t" ?st0]
          by (auto split: outcome.splits prod.splits)
        from no_plan_after_exhaustion[OF this, of f clock limit start_time t' plan]
        show ?thesis using Suc True Returns r None by simp
      next
        case (Some pl)
        with Suc True Returns r show ?thesis by auto
      qed
    next
      case (Raises e)
      with Suc True show ?thesis by simp
    next
      case OutOfFuel
      with Suc True show ?thesis by simp
    qed
  qed
qed

lemma plank_explore:
  "explore 9 (graph crafting_recipes) (initial_state crafting_items [(''wood'', 5)])
     (make_goal_checker [(''plank'', 4)]) (heuristic crafting_recipes) (Suc 1)
     \<lparr>frontier = heappush [] (Num 0, initial_state crafting_items [(''wood'', 5)]),
      came_from_dict = [initial_state crafting_items [(''wood'', 5)] \<mapsto> None],
      cost_so_far = [initial_state crafting_items [(''wood'', 5)] \<mapsto> 0]\<rparr> =
   Returns (Some
     [([(''wood'', 5), (''plank'', 0), (''bench'', 0)], ''chop''),
      ([(''wood'', 4), (''plank'', 4), (''bench'', 0)], ''complete'')], 4)"
  by code_simp


text \<open>
  Claim C8, amended. The deadline is tested at the top of the restart loop only, never
  during an exploration. An exploration that runs the frontier empty takes \<open>e\<close> instants
  (one for each state it pops), so the tests of a run stand at the instants
  \<open>1 + k * Suc e\<close>.
  \<^item> When a test finds that the budget has elapsed, the search returns \<^verbatim>\<open>None\<close>; it does
    not raise.
  \<^item> The search returns \<^verbatim>\<open>None\<close> exactly when some test of its run finds that the budget
    has elapsed, every earlier test having passed, and every exploration before that
    test having run the frontier empty.
  \<^item> When an exploration from the initial state runs the frontier empty and the budget
    has elapsed from some instant \<open>T\<close> on, the search returns \<^verbatim>\<open>None\<close>.
  \<^item> The search returns a plan exactly when its first test passes and the first
    exploration pops a goal state. What the clock shows after the first test makes no
    difference: the exploration goes on when the budget elapses during it, and the
    plan of a goal state popped later is returned.
  \<^item> A plan that the search returns is never partial: it is not empty, it starts at the
    initial state and it ends at a state that satisfies the goal.
\<close>

theorem search_deadline:
  "(limit \<le> clock t - start_time \<longrightarrow>
      restart_loop (Suc fuel) clock succs state is_goal limit estimate start_time t = Returns None)
   \<and> (search fuel clock succs state is_goal limit estimate = Returns None \<longrightarrow>
        (\<exists>t'. limit \<le> clock t' - clock 0))
   \<and> (explore n succs state is_goal estimate 0
          \<lparr>frontier = heappush [] (Num 0, state), came_from_dict = [state \<mapsto> None],
           cost_so_far = [state \<mapsto> 0]\<rparr> = Returns (None, d) \<and>
        (\<forall>t'\<ge>T. limit \<le> clock t' - clock 0) \<longrightarrow>
        search (n + Suc (T - 1)) clock succs state is_goal limit estimate = Returns None)
   \<and> (search fuel clock succs state is_goal limit estimate = Returns (Some plan) \<longrightarrow>
        plan \<noteq> [] \<and> State_eq (fst (hd plan)) state \<and> is_goal (fst (last plan)) = Inr True)
   \<and> (search fuel clock succs state is_goal limit estimate = Returns None \<longleftrightarrow>
        (\<exists>k<fuel. \<exists>e. limit \<le> clock (1 + k * Suc e) - clock 0 \<and>
           (\<forall>j<k. clock (1 + j * Suc e) - clock 0 < limit) \<and>
           (0 < k \<longrightarrow>
              explore (fuel - k) succs state is_goal estimate 0
                \<lparr>frontier = heappush [] (Num 0, state), came_from_dict = [state \<mapsto> None],
                 cost_so_far = [state \<mapsto> 0]\<rparr> = Returns (None, e))))
   \<and> (search fuel clock succs state is_goal limit estimate = Returns (Some plan) \<longleftrightarrow>
        (\<exists>f t'. fuel = Suc f \<and> clock 1 - clock 0 < limit \<and>
           explore f succs state is_goal estimate (Suc 1)
             \<lparr>frontier = heappush [] (Num 0, state), came_from_dict = [state \<mapsto> None],
              cost_so_far = [state \<mapsto> 0]\<rparr> = Returns (Some plan, t')))
   \<and> (clock' 0 = clock 0 \<and> clock' 1 = clock 1 \<and>
        search fuel clock succs state is_goal limit estimate = Returns (Some plan) \<longrightarrow>
        search fuel clock' succs state is_goal limit estimate = Returns (Some plan))"
proof (intro conjI)
  show "limit \<le> clock t - start_time \<longrightarrow>
      restart_loop (Suc fuel) clock succs state is_goal limit estimate start_time t = Returns None"
    by simp
  show "search fuel clock succs state is_goal limit estimate = Returns None \<longrightarrow>
        (\<exists>t'. limit \<le> clock t' - clock 0)"
    unfolding search_def using restart_loop_None by blast
  show "explore n succs state is_goal estimate 0
          \<lparr>frontier = heappush [] (Num 0, state), came_from_dict = [state \<mapsto> None],
           cost_so_far = [state \<mapsto> 0]\<rparr> = Returns (None, d) \<and>
        (\<forall>t'\<ge>T. limit \<le> clock t' - clock 0) \<longrightarrow>
        search (n + Suc (T - 1)) clock succs state is_goal limit estimate = Returns None"
    unfolding search_def using restart_loop_ends by blast
  show "search fuel clock succs state is_goal limit estimate = Returns (Some plan) \<longrightarrow>
        plan \<noteq> [] \<and> State_eq (fst (hd plan)) state \<and> is_goal (fst (last plan)) = Inr True"
    unfolding search_def using restart_loop_plan by blast
  show "search fuel clock succs state is_goal limit estimate = Returns None \<longleftrightarrow>
        (\<exists>k<fuel. \<exists>e. limit \<le> clock (1 + k * Suc e) - clock 0 \<and>
           (\<forall>j<k. clock (1 + j * Suc e) - clock 0 < limit) \<and>
           (0 < k \<longrightarrow>
              explore (fuel - k) succs state is_goal estimate 0
                \<lparr>frontier = heappush [] (Num 0, state), came_from_dict = [state \<mapsto> None],
                 cost_so_far = [state \<mapsto> 0]\<rparr> = Returns (None, e)))"
    unfolding search_def by (rule restart_loop_None_iff)
  show plan_iff: "search fuel clock succs state is_goal limit estimate = Returns (Some plan) \<longleftrightarrow>
        (\<exists>f t'. fuel = Suc f \<and> clock 1 - clock 0 < limit \<and>
           explore f succs state is_goal estimate (Suc 1)
             \<lparr>frontier = heappush [] (Num 0, state), came_from_dict = [state \<mapsto> None],
              cost_so_far = [state \<mapsto> 0]\<rparr> = Returns (Some plan, t'))"
    unfolding search_def by (rule restart_loop_plan_iff)
  show "clock' 0 = clock 0 \<and> clock' 1 = clock 1 \<and>
        search fuel clock succs state is_goal limit estimate = Returns (Some plan) \<longrightarrow>
        search fuel clock' succs state is_goal limit estimate = Returns (Some plan)"
    unfolding search_def restart_loop_plan_iff by simp
qed

theorem search_deadline_witness:
  "restart_loop (Suc 0) int (graph crafting_recipes)
     (initial_state crafting_items [(''wood'', 1)]) (make_goal_checker [(''wood'', 2)]) 7
     (heuristic crafting_recipes) 0 9 = Returns None
   \<and> search 11 int (graph crafting_recipes)
     (initial_state crafting_items [(''wood'', 1)]) (make_goal_checker [(''wood'', 2)]) 7
     (heuristic crafting_recipes) = Returns None
   \<and> (\<exists>t'. 7 \<le> int t' - int 0)
   \<and> State_eq (fst (hd
        [([(''wood'', 5), (''plank'', 0), (''bench'', 0)], ''chop''),
         ([(''wood'', 4), (''plank'', 4), (''bench'', 0)], ''complete'')]))
        (initial_state crafting_items [(''wood'', 5)])
   \<and> make_goal_checker [(''plank'', 4)] (fst (last
        [([(''wood'', 5), (''plank'', 0), (''bench'', 0)], ''chop''),
         ([(''wood'', 4), (''plank'', 4), (''bench'', 0)], ''complete'')])) = Inr True
   \<and> (\<exists>k<11. \<exists>e. 7 \<le> int (1 + k * Suc e) - int 0 \<and>
         (\<forall>j<k. int (1 + j * Suc e) - int 0 < 7) \<and>
         (0 < k \<longrightarrow>
            explore (11 - k) (graph crafting_recipes)
              (initial_state crafting_items [(''wood'', 1)]) (make_goal_checker [(''wood'', 2)])
              (heuristic crafting_recipes) 0
              \<lparr>frontier = heappush [] (Num 0, initial_state crafting_items [(''wood'', 1)]),
               came_from_dict = [initial_state crafting_items [(''wood'', 1)] \<mapsto> None],
               cost_so_far = [initial_state crafting_items [(''wood'', 1)] \<mapsto> 0]\<rparr> =
            Returns (None, e)))
   \<and> search 10 late_clock (graph crafting_recipes)
        (initial_state crafting_items [(''wood'', 5)]) (make_goal_checker [(''plank'', 4)]) 5
        (heuristic crafting_recipes) =
      Returns (Some
        [([(''wood'', 5), (''plank'', 0), (''bench'', 0)], ''chop''),
         ([(''wood'', 4), (''plank'', 4), (''bench'', 0)], ''complete'')])
   \<and> search 10 (\<lambda>t. 0) (graph crafting_recipes)
        (initial_state crafting_items [(''wood'', 5)]) (make_goal_checker [(''plank'', 4)]) 5
        (heuristic crafting_recipes) =
      Returns (Some
        [([(''wood'', 5), (''plank'', 0), (''bench'', 0)], ''chop''),
         ([(''wood'', 4), (''plank'', 4), (''bench'', 0)], ''complete'')])"
proof -
  let ?succs = "graph crafting_recipes"
  let ?s1 = "initial_state crafting_items [(''wood'', 1)]"
  let ?g1 = "make_goal_checker [(''wood'', 2)]"
  let ?s5 = "initial_state crafting_items [(''wood'', 5)]"
  let ?g4 = "make_goal_checker [(''plank'', 4)]"
  let ?h = "heuristic crafting_recipes"
  let ?plan = "[([(''wood'', 5), (''plank'', 0), (''bench'', 0)], ''chop''),
         ([(''wood'', 4), (''plank'', 4), (''bench'', 0)], ''complete'')]"
  note unreachable = search_deadline [of 7 int _ _ _ ?succs ?s1 ?g1 ?h]
  note reachable = search_deadline [of 5 late_clock _ _ 10 ?succs ?s5 ?g4 ?h _ _ _ ?plan]
  have a: "restart_loop (Suc 0) int ?succs ?s1 ?g1 7 ?h 0 9 = Returns None"
    using unreachable [of 9 0 0, THEN conjunct1] by simp
  have late: "\<forall>t'\<ge>7. 7 \<le> int t' - int 0" by simp
  have b: "search (4 + Suc (7 - 1)) int ?succs ?s1 ?g1 7 ?h = Returns None"
    using unreachable [of _ _ _ 4 3 7, THEN conjunct2, THEN conjunct2, THEN conjunct1]
      unreachable_explore late
    by blast
  then have b': "search 11 int ?succs ?s1 ?g1 7 ?h = Returns None" by simp
  have c: "\<exists>t'. 7 \<le> int t' - int 0"
    using unreachable [of _ _ 11, THEN conjunct2, THEN conjunct1] b' by blast
  have e: "\<exists>k<11. \<exists>e. 7 \<le> int (1 + k * Suc e) - int 0 \<and>
         (\<forall>j<k. int (1 + j * Suc e) - int 0 < 7) \<and>
         (0 < k \<longrightarrow> explore (11 - k) ?succs ?s1 ?g1 ?h 0
              \<lparr>frontier = heappush [] (Num 0, ?s1), came_from_dict = [?s1 \<mapsto> None],
               cost_so_far = [?s1 \<mapsto> 0]\<rparr> = Returns (None, e))"
    using unreachable [of _ _ 11, THEN conjunct2, THEN conjunct2, THEN conjunct2,
        THEN conjunct2, THEN conjunct1] b'
    by blast
  have test: "late_clock 1 - late_clock 0 < 5" by (simp add: late_clock_def)
  have f: "search 10 late_clock ?succs ?s5 ?g4 5 ?h = Returns (Some ?plan)"
    using reachable [THEN conjunct2, THEN conjunct2, THEN conjunct2, THEN conjunct2,
        THEN conjunct2, THEN conjunct1] plank_explore test
    by simp
  have d: "State_eq (fst (hd ?plan)) ?s5 \<and> ?g4 (fst (last ?plan)) = Inr True"
    using reachable [THEN conjunct2, THEN conjunct2, THEN conjunct2, THEN conjunct1,
        rule_format, OF f]
    by simp
  have g: "search 10 (\<lambda>t. 0) ?succs ?s5 ?g4 5 ?h = Returns (Some ?plan)"
    using reachable [of _ _ _ _ _ "\<lambda>t. 0", THEN conjunct2, THEN conjunct2, THEN conjunct2,
        THEN conjunct2, THEN conjunct2, THEN conjunct2] f
    by (simp add: late_clock_def)
  from a b' c d e f g show ?thesis by blast
qed

text \<open>
  The claim as stated fails. On \<open>late_clock\<close> with a budget of 5, the deadline test at
  instant 1 passes. At instant 2, when the first state is popped (the initial state,
  which does not satisfy the goal), the clock stands at 100: the budget has elapsed
  before any goal state is popped. The exploration goes on, pops the goal state at
  instant 3, and the search returns the plan, not \<^verbatim>\<open>None\<close>.
\<close>

theorem search_deadline_counterexample:
  "make_goal_checker [(''plank'', 4)] (initial_state crafting_items [(''wood'', 5)]) = Inr False
   \<and> 5 \<le> late_clock 2 - late_clock 0
   \<and> search 10 late_clock (graph crafting_recipes)
        (initial_state crafting_items [(''wood'', 5)]) (make_goal_checker [(''plank'', 4)]) 5
        (heuristic crafting_recipes) =
      Returns (Some
        [([(''wood'', 5), (''plank'', 0), (''bench'', 0)], ''chop''),
         ([(''wood'', 4), (''plank'', 4), (''bench'', 0)], ''complete'')])"
proof -
  have "make_goal_checker [(''plank'', 4)] (initial_state crafting_items [(''wood'', 5)]) =
      Inr False"
    by code_simp
  moreover have "5 \<le> late_clock 2 - late_clock 0"
    by (simp add: late_clock_def)
  ultimately show ?thesis using plank_run_late by simp
qed

end
